theory Spec2Isabelle
  imports Complex_Main "HOL-Library.AList" "HOL-Library.Char_ord" "HOL-Library.List_Lexorder"
begin

section \<open>Data model (src/lib/cache/types/index.ts)\<close>

text \<open>
  JavaScript numbers are modelled as follows: clock readings (milliseconds) and TTLs
  (seconds) are \<open>int\<close>, counters are \<open>nat\<close>, similarities, thresholds and averages
  are \<open>real\<close> (exact arithmetic in place of IEEE doubles). Values of the type
  parameter \<open>T\<close> are an arbitrary HOL type \<open>'v\<close>, assumed to survive
  \<open>JSON.stringify\<close>/\<open>JSON.parse\<close> unchanged. The optional \<open>metadata\<close> of an entry
  and of the options are opaque passengers that never influence the manager's state or
  results; they are left out. So are the \<open>onHit\<close>/\<open>onMiss\<close> callbacks of a
  strategy, which are assumed to return normally (\<open>get\<close> calls them inside its
  \<open>try\<close>: one that throws would turn the call into \<open>GET_ERROR\<close>).
\<close>

datatype strategy_type = Semantic | Exact | GeoTemporal | Financial | UserSpecific

record QueryFingerprint =
  hash :: string
  embedding :: "real list option"
  originalQuery :: string
  normalizedQuery :: string
  queryType :: strategy_type

record 'v CacheEntry =
  data :: 'v
  timestamp :: int
  ttl :: int
  fingerprint :: QueryFingerprint
  strategy :: string

text \<open>
  What a cache record parses to: a full entry, or the empty object \<open>{}\<close> that
  \<open>parseVectorSearchResults\<close> puts into its results (\<open>entry: {} as CacheEntry\<close>).
\<close>

datatype 'v json_entry = Entry "'v CacheEntry" | EmptyObject

record 'v CacheStrategy =
  strategy_name :: string
  strategy_type :: strategy_type
  defaultTTL :: int
  semanticThreshold :: "real option"
  customKeyGenerator :: "(string \<Rightarrow> string) option"
  shouldCache :: "(string \<Rightarrow> 'v \<Rightarrow> bool) option"

record CacheOptions =
  opt_strategy :: "string option"
  opt_ttl :: "int option"
  opt_enableSemantic :: "bool option"
  opt_semanticThreshold :: "real option"

record CacheStats =
  hits :: nat
  misses :: nat
  hitRate :: real
  totalRequests :: nat
  averageLatency :: real
  storageSize :: nat
  evictions :: nat
  lastUpdated :: int

record 'v SemanticSearchResult =
  r_key :: string
  similarity :: real
  r_entry :: "'v json_entry"
  distance :: real

datatype CacheEventType = Hit | Miss | SetEvent | DeleteEvent | Evict | ErrorEvent

type_synonym CacheEvent = "CacheEventType \<times> string"

text \<open>
  Errors as values. The first six are the codes of \<open>CacheError\<close> and
  \<open>SemanticCacheError\<close>; \<open>UPSTREAM_ERROR\<close> is an error raised by the store client,
  \<open>TYPE_ERROR\<close> the JavaScript TypeError of reading \<open>.length\<close> of \<open>undefined\<close>,
  \<open>LENGTH_ERROR\<close> the plain Error "Vectors must have the same length",
  \<open>SYNTAX_ERROR\<close> the SyntaxError of \<open>JSON.parse\<close>.
\<close>

datatype error =
  STRATEGY_ERROR | GET_ERROR | SET_ERROR | DELETE_ERROR | CLEAR_ERROR | SEMANTIC_ERROR
  | UPSTREAM_ERROR | TYPE_ERROR | LENGTH_ERROR | SYNTAX_ERROR

datatype 'v js_value = Data 'v | Null | Undefined

section \<open>The external store\<close>

text \<open>
  The Redis keyspace is an association list from keys to typed values: a string key
  holding a serialised cache record, the hash written by \<open>indexEntry\<close> under
  \<open>indexName:hash\<close>, the hash with fields \<open>vector\<close> and \<open>metadata\<close> under
  \<open>indexName:vectors:hash\<close>, and the master set \<open>indexName:keys\<close> (its members in
  the order \<open>smembers\<close> enumerates them). A command applied to a value of the wrong
  kind fails, as Redis answers WRONGTYPE. The store's own expiry of keys is a step of
  the environment (\<open>OpStoreExpire\<close> below), not tied to a clock.
\<close>

record IndexData =
  idx_hash :: string
  idx_embedding :: "real list"
  idx_originalQuery :: string
  idx_timestamp :: int
  idx_ttl :: int
  idx_strategy :: string

datatype 'v redis_value =
  RString "'v json_entry" | RHash IndexData | RVector "real list" IndexData | RSet "string list"

datatype redis_command =
  GET string | SETEX string "int option" | DEL "string list" | HSET string
  | SADD string string | SREM string string | SMEMBERS string | HGETALL string
  | KEYS string | FLUSHALL | FT_SEARCH | EXEC

text \<open>
  What one call of the manager meets outside itself: the embedding provider's answer
  for a text (\<open>None\<close>: the provider fails), which store commands fail, the decoded reply
  of the native vector search (\<open>None\<close>: \<open>FT.SEARCH\<close> is unavailable or fails; otherwise
  per hit its \<open>distance\<close> and the \<open>hash\<close> of its metadata, \<open>None\<close> when the metadata
  is empty or does not parse), and two readings of \<open>Date.now()\<close>: at entry
  (\<open>startTime\<close>) and after the lookups (\<open>now\<close>).

  The field \<open>deserialized\<close> is how the store client hands over what it read. The
  source serialises every record with \<open>JSON.stringify\<close> before writing it and applies
  \<open>JSON.parse\<close> to what it reads back. The constructor builds the client as
  \<open>new Redis({url, token})\<close>, with the library's defaults, and by default the
  \<open>@upstash/redis\<close> client parses every reply itself (its option
  \<open>automaticDeserialization\<close>): the source then receives an object or an array, and
  \<open>JSON.parse\<close> of one throws a SyntaxError. So \<open>deserialized\<close> is \<open>True\<close>
  for the client as the source constructs it, and \<open>False\<close> for a client that
  returns the stored strings as they are. (The metadata of a native search hit goes
  through \<open>JSON.parse\<close> too, inside a \<open>try\<close> whose \<open>catch\<close> skips the hit;
  whether it parses is part of \<open>ftsearch\<close>.)
\<close>

record env =
  embed :: "string \<Rightarrow> real list option"
  fails :: "redis_command \<Rightarrow> bool"
  ftsearch :: "(real \<times> string option) list option"
  deserialized :: bool
  startTime :: int
  now :: int

text \<open>
  What is fixed at construction: the strategy registry (\<open>this.strategies\<close>), the
  configured default strategy, and the platform functions the code imports
  (\<open>createHash('sha256')\<close> as \<open>sha256\<close>, the MD5 of the JSON of sorted keys and
  options as \<open>md5\<close>, the store's glob matching for \<open>KEYS\<close> as \<open>glob\<close>), taken as
  parameters.
\<close>

record 'v deps =
  strategies :: "string \<Rightarrow> 'v CacheStrategy option"
  defaultStrategy :: string
  sha256 :: "string \<Rightarrow> string"
  md5 :: "string list \<Rightarrow> CacheOptions \<Rightarrow> string"
  glob :: "string \<Rightarrow> string \<Rightarrow> bool"

text \<open>
  The mutable state: the store's contents \<open>db\<close>, the log \<open>cmds\<close> of the commands
  sent to it, and of the manager its \<open>stats\<close>, the ids in \<open>batchRequests\<close> and the
  events dispatched to listeners so far (\<open>emitted\<close>; a listener's exception is caught in
  \<open>emitEvent\<close>).
\<close>

record 'v state =
  db :: "(string \<times> 'v redis_value) list"
  cmds :: "redis_command list"
  stats :: CacheStats
  batchRequests :: "string set"
  emitted :: "CacheEvent list"

definition issue :: "redis_command \<Rightarrow> 'v state \<Rightarrow> 'v state" where
  "issue c s = s\<lparr>cmds := cmds s @ [c]\<rparr>"

definition redis_get ::
  "env \<Rightarrow> string \<Rightarrow> 'v state \<Rightarrow> (error + 'v json_entry option) \<times> 'v state" where
  "redis_get env k s =
     (if fails env (GET k) then (Inl UPSTREAM_ERROR, issue (GET k) s)
      else case map_of (db s) k of
             None \<Rightarrow> (Inr None, issue (GET k) s)
           | Some (RString v) \<Rightarrow> (Inr (Some v), issue (GET k) s)
           | Some _ \<Rightarrow> (Inl UPSTREAM_ERROR, issue (GET k) s))"

definition redis_setex ::
  "env \<Rightarrow> string \<Rightarrow> int option \<Rightarrow> 'v json_entry \<Rightarrow> 'v state \<Rightarrow> (error + unit) \<times> 'v state" where
  "redis_setex env k t v s =
     (if fails env (SETEX k t) then (Inl UPSTREAM_ERROR, issue (SETEX k t) s)
      else (Inr (), (issue (SETEX k t) s)\<lparr>db := AList.update k (RString v) (db s)\<rparr>))"

definition redis_del ::
  "env \<Rightarrow> string list \<Rightarrow> 'v state \<Rightarrow> (error + nat) \<times> 'v state" where
  "redis_del env ks s =
     (if fails env (DEL ks) then (Inl UPSTREAM_ERROR, issue (DEL ks) s)
      else (Inr (length (filter (\<lambda>k. map_of (db s) k \<noteq> None) (remdups ks))),
            (issue (DEL ks) s)\<lparr>db := filter (\<lambda>kv. fst kv \<notin> set ks) (db s)\<rparr>))"

definition redis_hset ::
  "env \<Rightarrow> string \<Rightarrow> 'v redis_value \<Rightarrow> 'v state \<Rightarrow> (error + unit) \<times> 'v state" where
  "redis_hset env k h s =
     (if fails env (HSET k) then (Inl UPSTREAM_ERROR, issue (HSET k) s)
      else case map_of (db s) k of
             Some (RString v) \<Rightarrow> (Inl UPSTREAM_ERROR, issue (HSET k) s)
           | Some (RSet ms) \<Rightarrow> (Inl UPSTREAM_ERROR, issue (HSET k) s)
           | _ \<Rightarrow> (Inr (), (issue (HSET k) s)\<lparr>db := AList.update k h (db s)\<rparr>))"

definition redis_sadd ::
  "env \<Rightarrow> string \<Rightarrow> string \<Rightarrow> 'v state \<Rightarrow> (error + unit) \<times> 'v state" where
  "redis_sadd env k m s =
     (if fails env (SADD k m) then (Inl UPSTREAM_ERROR, issue (SADD k m) s)
      else case map_of (db s) k of
             None \<Rightarrow> (Inr (), (issue (SADD k m) s)\<lparr>db := AList.update k (RSet [m]) (db s)\<rparr>)
           | Some (RSet ms) \<Rightarrow>
               (Inr (), (issue (SADD k m) s)
                  \<lparr>db := AList.update k (RSet (if m \<in> set ms then ms else ms @ [m])) (db s)\<rparr>)
           | Some _ \<Rightarrow> (Inl UPSTREAM_ERROR, issue (SADD k m) s))"

definition redis_srem ::
  "env \<Rightarrow> string \<Rightarrow> string \<Rightarrow> 'v state \<Rightarrow> (error + unit) \<times> 'v state" where
  "redis_srem env k m s =
     (if fails env (SREM k m) then (Inl UPSTREAM_ERROR, issue (SREM k m) s)
      else case map_of (db s) k of
             None \<Rightarrow> (Inr (), issue (SREM k m) s)
           | Some (RSet ms) \<Rightarrow>
               (Inr (), (issue (SREM k m) s)
                  \<lparr>db := (if removeAll m ms = [] then filter (\<lambda>kv. fst kv \<noteq> k) (db s)
                          else AList.update k (RSet (removeAll m ms)) (db s))\<rparr>)
           | Some _ \<Rightarrow> (Inl UPSTREAM_ERROR, issue (SREM k m) s))"

definition redis_smembers ::
  "env \<Rightarrow> string \<Rightarrow> 'v state \<Rightarrow> (error + string list) \<times> 'v state" where
  "redis_smembers env k s =
     (if fails env (SMEMBERS k) then (Inl UPSTREAM_ERROR, issue (SMEMBERS k) s)
      else case map_of (db s) k of
             None \<Rightarrow> (Inr [], issue (SMEMBERS k) s)
           | Some (RSet ms) \<Rightarrow> (Inr ms, issue (SMEMBERS k) s)
           | Some _ \<Rightarrow> (Inl UPSTREAM_ERROR, issue (SMEMBERS k) s))"

text \<open>\<open>hgetall\<close> of a missing key answers an object without fields (\<open>None\<close> here).\<close>

definition redis_hgetall ::
  "env \<Rightarrow> string \<Rightarrow> 'v state \<Rightarrow> (error + 'v redis_value option) \<times> 'v state" where
  "redis_hgetall env k s =
     (if fails env (HGETALL k) then (Inl UPSTREAM_ERROR, issue (HGETALL k) s)
      else case map_of (db s) k of
             None \<Rightarrow> (Inr None, issue (HGETALL k) s)
           | Some (RString v) \<Rightarrow> (Inl UPSTREAM_ERROR, issue (HGETALL k) s)
           | Some (RSet ms) \<Rightarrow> (Inl UPSTREAM_ERROR, issue (HGETALL k) s)
           | Some h \<Rightarrow> (Inr (Some h), issue (HGETALL k) s))"

definition redis_keys ::
  "'v deps \<Rightarrow> env \<Rightarrow> string \<Rightarrow> 'v state \<Rightarrow> (error + string list) \<times> 'v state" where
  "redis_keys cfg env p s =
     (if fails env (KEYS p) then (Inl UPSTREAM_ERROR, issue (KEYS p) s)
      else (Inr (filter (glob cfg p) (remdups (map fst (db s)))), issue (KEYS p) s))"

definition redis_flushall :: "env \<Rightarrow> 'v state \<Rightarrow> (error + unit) \<times> 'v state" where
  "redis_flushall env s =
     (if fails env FLUSHALL then (Inl UPSTREAM_ERROR, issue FLUSHALL s)
      else (Inr (), (issue FLUSHALL s)\<lparr>db := []\<rparr>))"

section \<open>Similarity Matcher (class SemanticMatcher)\<close>

definition indexName :: string where
  "indexName = ''scira_cache_embeddings''"

definition index_key :: "string \<Rightarrow> string" where
  "index_key h = indexName @ '':'' @ h"

definition vector_key :: "string \<Rightarrow> string" where
  "vector_key h = indexName @ '':vectors:'' @ h"

definition keys_key :: string where
  "keys_key = indexName @ '':keys''"

text \<open>The loop of \<open>cosineSimilarity\<close>, with its three accumulators.\<close>

fun cosine_loop :: "real list \<Rightarrow> real list \<Rightarrow> real \<times> real \<times> real \<Rightarrow> real \<times> real \<times> real" where
  "cosine_loop (x # xs) (y # ys) (dotProduct, normA, normB) =
     cosine_loop xs ys (dotProduct + x * y, normA + x * x, normB + y * y)"
| "cosine_loop xs ys acc = acc"

text \<open>
  The query vector is optional: \<open>get\<close> passes \<open>fingerprint.embedding!\<close>, which is
  \<open>undefined\<close> when no embedding was produced, and \<open>a.length\<close> then throws.
\<close>

definition cosineSimilarity :: "real list option \<Rightarrow> real list \<Rightarrow> error + real" where
  "cosineSimilarity a b =
     (case a of
        None \<Rightarrow> Inl TYPE_ERROR
      | Some a' \<Rightarrow>
          if length a' \<noteq> length b then Inl LENGTH_ERROR
          else (case cosine_loop a' b (0, 0, 0) of
                  (dotProduct, normA, normB) \<Rightarrow>
                    (let magnitude = sqrt normA * sqrt normB
                     in Inr (if magnitude = 0 then 0 else dotProduct / magnitude))))"

text \<open>
  \<open>parseVectorSearchResults\<close> on the decoded reply: a hit is kept when
  \<open>1 - distance \<ge> threshold\<close> and its metadata is present and parses; its entry is
  the empty object.
\<close>

definition parseVectorSearchResults ::
  "(real \<times> string option) list \<Rightarrow> real \<Rightarrow> 'v SemanticSearchResult list" where
  "parseVectorSearchResults results threshold =
     concat (map (\<lambda>(d, m). case m of
                     None \<Rightarrow> []
                   | Some h \<Rightarrow>
                       if 1 - d \<ge> threshold
                       then [\<lparr>r_key = h, similarity = 1 - d, r_entry = EmptyObject, distance = d\<rparr>]
                       else []) results)"

text \<open>\<open>serializeVector\<close> of an absent vector is an empty buffer, so nothing throws before the call.\<close>

definition performVectorSearch ::
  "env \<Rightarrow> real list option \<Rightarrow> real \<Rightarrow> 'v state
     \<Rightarrow> (error + 'v SemanticSearchResult list) \<times> 'v state" where
  "performVectorSearch env queryEmbedding threshold s =
     (case ftsearch env of
        None \<Rightarrow> (Inl UPSTREAM_ERROR, issue FT_SEARCH s)
      | Some results \<Rightarrow> (Inr (parseVectorSearchResults results threshold), issue FT_SEARCH s))"

definition entry_key :: "IndexData \<Rightarrow> string \<Rightarrow> string" where
  "entry_key metadata k = ''scira:cache:'' @ idx_strategy metadata @ '':'' @ k"

text \<open>
  The \<open>for (const key of keys)\<close> loop of the manual scan, \<open>results\<close> as accumulator.
  The stored vector and the metadata go through \<open>JSON.parse\<close>, and so does the cache
  record: each throws when the client has already parsed its reply (the first of them,
  on the vector or on the metadata, ends the scan).
\<close>

fun scan_keys ::
  "env \<Rightarrow> real list option \<Rightarrow> real \<Rightarrow> string list \<Rightarrow> 'v SemanticSearchResult list
     \<Rightarrow> 'v state \<Rightarrow> (error + 'v SemanticSearchResult list) \<times> 'v state" where
  "scan_keys env q threshold [] results s = (Inr results, s)"
| "scan_keys env q threshold (k # ks) results s =
     (case redis_hgetall env (vector_key k) s of
        (Inl e, s1) \<Rightarrow> (Inl e, s1)
      | (Inr (Some (RVector storedVector metadata)), s1) \<Rightarrow>
          if deserialized env then (Inl SYNTAX_ERROR, s1)
          else
            (case cosineSimilarity q storedVector of
               Inl e \<Rightarrow> (Inl e, s1)
             | Inr sim \<Rightarrow>
                 if sim \<ge> threshold then
                   (case redis_get env (entry_key metadata k) s1 of
                      (Inl e, s2) \<Rightarrow> (Inl e, s2)
                    | (Inr (Some cacheEntry), s2) \<Rightarrow>
                        scan_keys env q threshold ks
                          (results @ [\<lparr>r_key = k, similarity = sim, r_entry = cacheEntry,
                                       distance = 1 - sim\<rparr>]) s2
                    | (Inr None, s2) \<Rightarrow> scan_keys env q threshold ks results s2)
                 else scan_keys env q threshold ks results s1)
      | (Inr _, s1) \<Rightarrow> scan_keys env q threshold ks results s1)"

text \<open>
  \<open>results.sort((a, b) => b.similarity - a.similarity)\<close>: JavaScript's sort is stable,
  as is \<open>sort_key\<close> (insertion sort).
\<close>

definition performManualSimilaritySearch ::
  "env \<Rightarrow> real list option \<Rightarrow> real \<Rightarrow> 'v state
     \<Rightarrow> (error + 'v SemanticSearchResult list) \<times> 'v state" where
  "performManualSimilaritySearch env q threshold s =
     (case redis_smembers env keys_key s of
        (Inl e, s1) \<Rightarrow> (Inl SEMANTIC_ERROR, s1)
      | (Inr ks, s1) \<Rightarrow>
          (case scan_keys env q threshold ks [] s1 of
             (Inl e, s2) \<Rightarrow> (Inl SEMANTIC_ERROR, s2)
           | (Inr results, s2) \<Rightarrow> (Inr (sort_key (\<lambda>r. - similarity r) results), s2)))"

definition findSimilarQueries ::
  "env \<Rightarrow> real list option \<Rightarrow> real \<Rightarrow> 'v state
     \<Rightarrow> (error + 'v SemanticSearchResult list) \<times> 'v state" where
  "findSimilarQueries env q threshold s =
     (case performVectorSearch env q threshold s of
        (Inr results, s1) \<Rightarrow> (Inr results, s1)
      | (Inl e, s1) \<Rightarrow> performManualSimilaritySearch env q threshold s1)"

definition indexEntry ::
  "env \<Rightarrow> QueryFingerprint \<Rightarrow> 'v CacheEntry \<Rightarrow> 'v state \<Rightarrow> (error + unit) \<times> 'v state" where
  "indexEntry env fp entry s =
     (case embedding fp of
        None \<Rightarrow> (Inr (), s)
      | Some emb \<Rightarrow>
          (let indexData = \<lparr>idx_hash = hash fp, idx_embedding = emb,
                            idx_originalQuery = originalQuery fp, idx_timestamp = timestamp entry,
                            idx_ttl = ttl entry, idx_strategy = strategy entry\<rparr>
           in case redis_hset env (index_key (hash fp)) (RHash indexData) s of
                (Inl e, s1) \<Rightarrow> (Inl SEMANTIC_ERROR, s1)
              | (Inr u, s1) \<Rightarrow>
                  (case redis_hset env (vector_key (hash fp)) (RVector emb indexData) s1 of
                     (Inl e, s2) \<Rightarrow> (Inl SEMANTIC_ERROR, s2)
                   | (Inr u, s2) \<Rightarrow>
                       (case redis_sadd env keys_key (hash fp) s2 of
                          (Inl e, s3) \<Rightarrow> (Inl SEMANTIC_ERROR, s3)
                        | (Inr u, s3) \<Rightarrow> (Inr (), s3)))))"

text \<open>\<open>removeEntry\<close> swallows every failure (it only logs a warning).\<close>

definition removeEntry :: "env \<Rightarrow> string \<Rightarrow> 'v state \<Rightarrow> 'v state" where
  "removeEntry env h s =
     (case redis_del env [index_key h] s of
        (Inl e, s1) \<Rightarrow> s1
      | (Inr n, s1) \<Rightarrow>
          (case redis_del env [vector_key h] s1 of
             (Inl e, s2) \<Rightarrow> s2
           | (Inr n, s2) \<Rightarrow> snd (redis_srem env keys_key h s2)))"

text \<open>The pipeline of \<open>clearIndex\<close> takes effect as a whole when \<open>exec\<close> succeeds.\<close>

definition clearIndex :: "env \<Rightarrow> 'v state \<Rightarrow> (error + unit) \<times> 'v state" where
  "clearIndex env s =
     (case redis_smembers env keys_key s of
        (Inl e, s1) \<Rightarrow> (Inl SEMANTIC_ERROR, s1)
      | (Inr ks, s1) \<Rightarrow>
          if ks = [] then (Inr (), s1)
          else if fails env EXEC then (Inl SEMANTIC_ERROR, issue EXEC s1)
          else (Inr (), (issue EXEC s1)
                  \<lparr>db := filter (\<lambda>kv. fst kv \<notin> set (concat (map (\<lambda>k. [index_key k, vector_key k]) ks)
                                                    @ [keys_key])) (db s1)\<rparr>))"

section \<open>Cache Manager (class CacheManager)\<close>

text \<open>
  \<open>normalizeKey\<close> is \<open>key.toLowerCase().trim().replace(/\s+/g, ' ')\<close>, here on ASCII
  text: bytes outside \<open>A\<close>..\<open>Z\<close> are left as they are, and white space is the six
  ASCII white-space characters.
\<close>

definition toLowerCase :: "char \<Rightarrow> char" where
  "toLowerCase c =
     (case map_of (zip ''ABCDEFGHIJKLMNOPQRSTUVWXYZ'' ''abcdefghijklmnopqrstuvwxyz'') c of
        None \<Rightarrow> c
      | Some l \<Rightarrow> l)"

definition isSpace :: "char \<Rightarrow> bool" where
  "isSpace c = (c \<in> set [CHR '' '', CHR 0x09, CHR 0x0A, CHR 0x0B, CHR 0x0C, CHR 0x0D])"

definition trim :: "string \<Rightarrow> string" where
  "trim str = rev (dropWhile isSpace (rev (dropWhile isSpace str)))"

fun collapse_spaces :: "bool \<Rightarrow> string \<Rightarrow> string" where
  "collapse_spaces in_run [] = []"
| "collapse_spaces in_run (c # cs) =
     (if isSpace c then (if in_run then collapse_spaces True cs
                         else CHR '' '' # collapse_spaces True cs)
      else c # collapse_spaces False cs)"

definition normalizeKey :: "string \<Rightarrow> string" where
  "normalizeKey k = collapse_spaces False (trim (map toLowerCase k))"

text \<open>JavaScript's \<open>a || b\<close> on an optional number: \<open>undefined\<close> and \<open>0\<close> are falsy.\<close>

definition js_or :: "'a::zero option \<Rightarrow> 'a \<Rightarrow> 'a" where
  "js_or a b = (case a of None \<Rightarrow> b | Some x \<Rightarrow> if x = 0 then b else x)"

text \<open>\<open>strategyName || this.config.defaultStrategy\<close>: the empty string is falsy too.\<close>

definition getStrategy :: "'v deps \<Rightarrow> string option \<Rightarrow> error + 'v CacheStrategy" where
  "getStrategy cfg strategyName =
     (let name = (case strategyName of
                    None \<Rightarrow> defaultStrategy cfg
                  | Some n \<Rightarrow> if n = [] then defaultStrategy cfg else n)
      in case strategies cfg name of
           None \<Rightarrow> Inl STRATEGY_ERROR
         | Some strat \<Rightarrow> Inr strat)"

text \<open>
  The provider's failure is caught inside \<open>generateFingerprint\<close>: the fingerprint then
  has no embedding.
\<close>

definition generateFingerprint ::
  "'v deps \<Rightarrow> env \<Rightarrow> string \<Rightarrow> 'v CacheStrategy \<Rightarrow> QueryFingerprint" where
  "generateFingerprint cfg env k strat =
     (let normalizedKey = normalizeKey k;
          h = (case customKeyGenerator strat of
                 Some g \<Rightarrow> g normalizedKey
               | None \<Rightarrow> sha256 cfg normalizedKey)
      in \<lparr>hash = ''scira:cache:'' @ strategy_name strat @ '':'' @ h,
          embedding = (if strategy_type strat = Semantic then embed env normalizedKey else None),
          originalQuery = k,
          normalizedQuery = normalizedKey,
          queryType = strategy_type strat\<rparr>)"

text \<open>
  \<open>getEntry\<close> is \<open>data ? JSON.parse(data as string) : null\<close> on the client's
  reply: a reply that the client has already parsed makes \<open>JSON.parse\<close> throw.
\<close>

definition getEntry ::
  "env \<Rightarrow> string \<Rightarrow> 'v state \<Rightarrow> (error + 'v json_entry option) \<times> 'v state" where
  "getEntry env k s =
     (case redis_get env k s of
        (Inl e, s1) \<Rightarrow> (Inl e, s1)
      | (Inr None, s1) \<Rightarrow> (Inr None, s1)
      | (Inr (Some entry), s1) \<Rightarrow>
          if deserialized env then (Inl SYNTAX_ERROR, s1) else (Inr (Some entry), s1))"

definition setEntry ::
  "env \<Rightarrow> string \<Rightarrow> 'v json_entry \<Rightarrow> int option \<Rightarrow> 'v state \<Rightarrow> (error + unit) \<times> 'v state" where
  "setEntry env k entry t s = redis_setex env k t entry s"

text \<open>
  On the empty object both fields are \<open>undefined\<close>, the sum is \<open>NaN\<close> and the
  comparison is false.
\<close>

definition isExpired :: "int \<Rightarrow> 'v json_entry \<Rightarrow> bool" where
  "isExpired t entry =
     (case entry of
        Entry e \<Rightarrow> t > timestamp e + ttl e * 1000
      | EmptyObject \<Rightarrow> False)"

definition entry_ttl :: "'v json_entry \<Rightarrow> int option" where
  "entry_ttl entry = (case entry of Entry e \<Rightarrow> Some (ttl e) | EmptyObject \<Rightarrow> None)"

definition entry_data :: "'v json_entry \<Rightarrow> 'v js_value" where
  "entry_data entry = (case entry of Entry e \<Rightarrow> Data (data e) | EmptyObject \<Rightarrow> Undefined)"

definition updateStats :: "CacheEventType \<Rightarrow> int \<Rightarrow> CacheStats \<Rightarrow> CacheStats" where
  "updateStats ty latency st =
     (let st1 = st\<lparr>totalRequests := totalRequests st + 1\<rparr>;
          st2 = (if ty = Hit then st1\<lparr>hits := hits st1 + 1\<rparr> else st1\<lparr>misses := misses st1 + 1\<rparr>)
      in st2\<lparr>averageLatency :=
               (averageLatency st2 * (real (totalRequests st2) - 1) + real_of_int latency)
                 / real (totalRequests st2)\<rparr>)"

definition emitEvent :: "CacheEventType \<Rightarrow> string \<Rightarrow> 'v state \<Rightarrow> 'v state" where
  "emitEvent ty k s = s\<lparr>emitted := emitted s @ [(ty, k)]\<rparr>"

definition resetStats :: "int \<Rightarrow> CacheStats" where
  "resetStats t =
     \<lparr>hits = 0, misses = 0, hitRate = 0, totalRequests = 0, averageLatency = 0,
      storageSize = 0, evictions = 0, lastUpdated = t\<rparr>"

text \<open>
  \<open>delete(key)\<close> has no options: the strategy is always the configured default.
  Everything is inside its \<open>try\<close>, the lookup of the strategy included.
\<close>

definition delete :: "'v deps \<Rightarrow> env \<Rightarrow> string \<Rightarrow> 'v state \<Rightarrow> (error + bool) \<times> 'v state" where
  "delete cfg env k s =
     (case getStrategy cfg None of
        Inl e \<Rightarrow> (Inl DELETE_ERROR, emitEvent ErrorEvent k s)
      | Inr strat \<Rightarrow>
          (let fp = generateFingerprint cfg env k strat
           in case redis_del env [hash fp] s of
                (Inl e, s1) \<Rightarrow> (Inl DELETE_ERROR, emitEvent ErrorEvent k s1)
              | (Inr result, s1) \<Rightarrow>
                  if result > 0 then
                    (Inr True,
                     emitEvent DeleteEvent k
                       (if strategy_type strat = Semantic then removeEntry env (hash fp) s1 else s1))
                  else (Inr False, s1)))"

text \<open>Lines 81 to 100 of \<open>get\<close>: the exact lookup, then the semantic one with promotion.\<close>

definition get_lookup ::
  "'v deps \<Rightarrow> env \<Rightarrow> string \<Rightarrow> CacheOptions \<Rightarrow> 'v CacheStrategy \<Rightarrow> 'v state
     \<Rightarrow> (error + 'v json_entry option) \<times> 'v state" where
  "get_lookup cfg env k options strat s =
     (let fp = generateFingerprint cfg env k strat
      in case getEntry env (hash fp) s of
           (Inl e, s1) \<Rightarrow> (Inl e, s1)
         | (Inr entry, s1) \<Rightarrow>
             if entry = None \<and> opt_enableSemantic options \<noteq> Some False
                \<and> strategy_type strat = Semantic
             then
               (case findSimilarQueries env (embedding fp)
                       (js_or (opt_semanticThreshold options) (js_or (semanticThreshold strat) 0.85))
                       s1 of
                  (Inl e, s2) \<Rightarrow> (Inl e, s2)
                | (Inr [], s2) \<Rightarrow> (Inr None, s2)
                | (Inr (bestMatch # rest), s2) \<Rightarrow>
                    (case setEntry env (hash fp) (r_entry bestMatch)
                            (entry_ttl (r_entry bestMatch)) s2 of
                       (Inl e, s3) \<Rightarrow> (Inl e, s3)
                     | (Inr u, s3) \<Rightarrow> (Inr (Some (r_entry bestMatch)), s3)))
             else (Inr entry, s1))"

text \<open>Lines 102 to 125 of \<open>get\<close>: hit, or removal of the expired entry and miss.\<close>

definition get_finish ::
  "'v deps \<Rightarrow> env \<Rightarrow> string \<Rightarrow> 'v json_entry option \<Rightarrow> 'v state
     \<Rightarrow> (error + 'v js_value) \<times> 'v state" where
  "get_finish cfg env k entry s =
     (let latency = now env - startTime env
      in case entry of
           None \<Rightarrow>
             (Inr Null, emitEvent Miss k (s\<lparr>stats := updateStats Miss latency (stats s)\<rparr>))
         | Some e \<Rightarrow>
             if isExpired (now env) e then
               (case delete cfg env k s of
                  (Inl err, s1) \<Rightarrow> (Inl err, s1)
                | (Inr removed, s1) \<Rightarrow>
                    (Inr Null, emitEvent Miss k (s1\<lparr>stats := updateStats Miss latency (stats s1)\<rparr>)))
             else
               (Inr (entry_data e),
                emitEvent Hit k (s\<lparr>stats := updateStats Hit latency (stats s)\<rparr>)))"

text \<open>
  \<open>get\<close>: the strategy is resolved before the \<open>try\<close>; every error inside it is
  reported by an \<open>error\<close> event and rethrown as \<open>GET_ERROR\<close>.
\<close>

definition get ::
  "'v deps \<Rightarrow> env \<Rightarrow> string \<Rightarrow> CacheOptions \<Rightarrow> 'v state \<Rightarrow> (error + 'v js_value) \<times> 'v state" where
  "get cfg env k options s =
     (case getStrategy cfg (opt_strategy options) of
        Inl e \<Rightarrow> (Inl e, s)
      | Inr strat \<Rightarrow>
          (case get_lookup cfg env k options strat s of
             (Inl e, s1) \<Rightarrow> (Inl GET_ERROR, emitEvent ErrorEvent k s1)
           | (Inr entry, s1) \<Rightarrow>
               (case get_finish cfg env k entry s1 of
                  (Inl e, s2) \<Rightarrow> (Inl GET_ERROR, emitEvent ErrorEvent k s2)
                | (Inr v, s2) \<Rightarrow> (Inr v, s2))))"

text \<open>\<open>set\<close> of the source (the name \<open>set\<close> is taken in HOL).\<close>

definition cache_set ::
  "'v deps \<Rightarrow> env \<Rightarrow> string \<Rightarrow> 'v \<Rightarrow> CacheOptions \<Rightarrow> 'v state \<Rightarrow> (error + unit) \<times> 'v state" where
  "cache_set cfg env k v options s =
     (case getStrategy cfg (opt_strategy options) of
        Inl e \<Rightarrow> (Inl e, s)
      | Inr strat \<Rightarrow>
          if (case shouldCache strat of None \<Rightarrow> False | Some p \<Rightarrow> \<not> p k v) then (Inr (), s)
          else
            (let fp = generateFingerprint cfg env k strat;
                 t = js_or (opt_ttl options) (defaultTTL strat);
                 entry = \<lparr>data = v, timestamp = now env, ttl = t, fingerprint = fp,
                          strategy = strategy_name strat\<rparr>
             in case setEntry env (hash fp) (Entry entry) (Some t) s of
                  (Inl e, s1) \<Rightarrow> (Inl SET_ERROR, emitEvent ErrorEvent k s1)
                | (Inr u, s1) \<Rightarrow>
                    (case (if strategy_type strat = Semantic \<and> embedding fp \<noteq> None
                           then indexEntry env fp entry s1 else (Inr (), s1)) of
                       (Inl e, s2) \<Rightarrow> (Inl SET_ERROR, emitEvent ErrorEvent k s2)
                     | (Inr u, s2) \<Rightarrow> (Inr (), emitEvent SetEvent k s2))))"

text \<open>
  \<open>waitForBatch\<close> polls until the id has left \<open>batchRequests\<close>. Within one call
  nothing else runs, so the poll sees the same state each time: it is a loop that
  returns at once or never.
\<close>

partial_function (option) waitForBatch :: "'v state \<Rightarrow> string \<Rightarrow> unit option" where
  "waitForBatch s batchId =
     (if batchId \<notin> batchRequests s then Some () else waitForBatch s batchId)"

definition generateBatchId :: "'v deps \<Rightarrow> string list \<Rightarrow> CacheOptions \<Rightarrow> string" where
  "generateBatchId cfg ks options = md5 cfg (sort ks) options"

text \<open>
  The \<open>get\<close> calls of a batch, one after the other in the order of the keys (one
  schedule of the concurrent calls). A failing \<open>get\<close> rejects the batch, the others
  still run.
\<close>

fun batch_gets ::
  "'v deps \<Rightarrow> env \<Rightarrow> CacheOptions \<Rightarrow> string list
     \<Rightarrow> (string \<Rightarrow> 'v js_value option) \<times> error option \<Rightarrow> 'v state
     \<Rightarrow> ((string \<Rightarrow> 'v js_value option) \<times> error option) \<times> 'v state" where
  "batch_gets cfg env options [] acc s = (acc, s)"
| "batch_gets cfg env options (k # ks) (results, err) s =
     (case get cfg env k options s of
        (Inr v, s1) \<Rightarrow> batch_gets cfg env options ks (results(k \<mapsto> v), err) s1
      | (Inl e, s1) \<Rightarrow>
          batch_gets cfg env options ks
            (results, (case err of None \<Rightarrow> Some e | Some e0 \<Rightarrow> Some e0)) s1)"

text \<open>
  \<open>getBatch\<close>; \<open>keys.sort()\<close> inside \<open>generateBatchId\<close> sorts the caller's array in
  place, so the lookups run over the sorted keys. The value \<open>None\<close> is a call that
  never returns.
\<close>

definition getBatch ::
  "'v deps \<Rightarrow> env \<Rightarrow> string list \<Rightarrow> CacheOptions \<Rightarrow> 'v state
     \<Rightarrow> ((error + (string \<Rightarrow> 'v js_value option)) \<times> 'v state) option" where
  "getBatch cfg env ks options s =
     (let batchId = generateBatchId cfg ks options
      in case (if batchId \<in> batchRequests s then waitForBatch s batchId else Some ()) of
           None \<Rightarrow> None
         | Some u \<Rightarrow>
             (case batch_gets cfg env options (sort ks) (Map.empty, None) s of
                ((results, None), s1) \<Rightarrow> Some (Inr results, s1)
              | ((results, Some e), s1) \<Rightarrow> Some (Inl e, s1)))"

text \<open>\<open>clear\<close>; \<open>if (pattern)\<close> is false for the empty string as well.\<close>

definition clear ::
  "'v deps \<Rightarrow> env \<Rightarrow> string option \<Rightarrow> 'v state \<Rightarrow> (error + nat) \<times> 'v state" where
  "clear cfg env pattern s =
     (case (case pattern of None \<Rightarrow> None | Some p \<Rightarrow> if p = [] then None else Some p) of
        Some p \<Rightarrow>
          (case redis_keys cfg env p s of
             (Inl e, s1) \<Rightarrow> (Inl CLEAR_ERROR, s1)
           | (Inr ks, s1) \<Rightarrow>
               if ks \<noteq> [] then
                 (case redis_del env ks s1 of
                    (Inl e, s2) \<Rightarrow> (Inl CLEAR_ERROR, s2)
                  | (Inr result, s2) \<Rightarrow> (Inr result, emitEvent Evict (''pattern:'' @ p) s2))
               else (Inr 0, s1))
      | None \<Rightarrow>
          (case redis_flushall env s of
             (Inl e, s1) \<Rightarrow> (Inl CLEAR_ERROR, s1)
           | (Inr u, s1) \<Rightarrow>
               (case clearIndex env s1 of
                  (Inl e, s2) \<Rightarrow> (Inl CLEAR_ERROR, s2)
                | (Inr u, s2) \<Rightarrow>
                    (Inr 1, emitEvent Evict ''all'' (s2\<lparr>stats := resetStats (now env)\<rparr>)))))"

definition getStats :: "int \<Rightarrow> 'v state \<Rightarrow> CacheStats \<times> 'v state" where
  "getStats t s =
     (let st = (stats s)\<lparr>hitRate := (if totalRequests (stats s) > 0
                                       then real (hits (stats s)) / real (totalRequests (stats s))
                                       else 0),
                         lastUpdated := t\<rparr>
      in (st, s\<lparr>stats := st\<rparr>))"

definition destroy :: "'v state \<Rightarrow> 'v state" where
  "destroy s = s\<lparr>batchRequests := {}\<rparr>"

text \<open>The state the constructor leaves, over a store holding \<open>db0\<close>.\<close>

definition new_manager :: "(string \<times> 'v redis_value) list \<Rightarrow> int \<Rightarrow> 'v state" where
  "new_manager db0 t =
     \<lparr>db = db0, cmds = [], stats = resetStats t, batchRequests = {}, emitted = []\<rparr>"

section \<open>Sequences of operations\<close>

text \<open>
  The public operations, each with the environment it meets, and the store dropping a
  key on its own (its native expiry). An operation that fails still leaves the state
  it reached.
\<close>

datatype 'v operation =
  OpGet env string CacheOptions
  | OpSet env string 'v CacheOptions
  | OpDelete env string
  | OpGetBatch env "string list" CacheOptions
  | OpClear env "string option"
  | OpGetStats int
  | OpDestroy
  | OpStoreExpire string

fun step :: "'v deps \<Rightarrow> 'v operation \<Rightarrow> 'v state \<Rightarrow> 'v state" where
  "step cfg (OpGet env k options) s = snd (get cfg env k options s)"
| "step cfg (OpSet env k v options) s = snd (cache_set cfg env k v options s)"
| "step cfg (OpDelete env k) s = snd (delete cfg env k s)"
| "step cfg (OpGetBatch env ks options) s =
     (case getBatch cfg env ks options s of None \<Rightarrow> s | Some (r, s1) \<Rightarrow> s1)"
| "step cfg (OpClear env pattern) s = snd (clear cfg env pattern s)"
| "step cfg (OpGetStats t) s = snd (getStats t s)"
| "step cfg OpDestroy s = destroy s"
| "step cfg (OpStoreExpire k) s = s\<lparr>db := filter (\<lambda>kv. fst kv \<noteq> k) (db s)\<rparr>"

definition run :: "'v deps \<Rightarrow> 'v operation list \<Rightarrow> 'v state \<Rightarrow> 'v state" where
  "run cfg ops s = fold (step cfg) ops s"

section \<open>Auxiliary definitions for the properties\<close>

text \<open>The manager's counters and in-flight batch ids: no store command touches them.\<close>

definition same_manager :: "'v state \<Rightarrow> 'v state \<Rightarrow> bool" where
  "same_manager s s' \<longleftrightarrow>
     stats s' = stats s \<and> batchRequests s' = batchRequests s"

text \<open>The counters agree: every request was counted as a hit or as a miss.\<close>

definition stats_ok :: "CacheStats \<Rightarrow> bool" where
  "stats_ok st \<longleftrightarrow> hits st + misses st = totalRequests st"

text \<open>The lookup key of a fingerprint; it does not depend on the embedding.\<close>

definition lookup_key :: "'v deps \<Rightarrow> 'v CacheStrategy \<Rightarrow> string \<Rightarrow> string" where
  "lookup_key cfg strat k =
     ''scira:cache:'' @ strategy_name strat @ '':'' @
       (case customKeyGenerator strat of
          Some g \<Rightarrow> g (normalizeKey k)
        | None \<Rightarrow> sha256 cfg (normalizeKey k))"

text \<open>The cacheability predicate of a strategy accepts a key and a value.\<close>

definition accepts :: "'v CacheStrategy \<Rightarrow> string \<Rightarrow> 'v \<Rightarrow> bool" where
  "accepts strat k v = (case shouldCache strat of None \<Rightarrow> True | Some p \<Rightarrow> p k v)"

subsection \<open>A small configuration for concrete runs\<close>

text \<open>
  Two strategies over values of type \<open>nat\<close>: a semantic one named \<open>sem\<close> (the default),
  whose key generator is the identity and whose predicate accepts positive values, and
  an exact one named \<open>exact\<close>. For evaluation the digest is replaced by the identity.
\<close>

definition sem_strategy :: "nat CacheStrategy" where
  "sem_strategy =
     \<lparr>strategy_name = ''sem'', strategy_type = Semantic, defaultTTL = 60,
      semanticThreshold = None, customKeyGenerator = Some (\<lambda>k. k),
      shouldCache = Some (\<lambda>k v. v > 0)\<rparr>"

definition exact_strategy :: "nat CacheStrategy" where
  "exact_strategy =
     \<lparr>strategy_name = ''exact'', strategy_type = Exact, defaultTTL = 30,
      semanticThreshold = None, customKeyGenerator = None, shouldCache = None\<rparr>"

definition demo_cfg :: "nat deps" where
  "demo_cfg =
     \<lparr>strategies = map_of [(''sem'', sem_strategy), (''exact'', exact_strategy)],
      defaultStrategy = ''sem'',
      sha256 = (\<lambda>str. str),
      md5 = (\<lambda>ks options. concat ks),
      glob = (\<lambda>p k. True)\<rparr>"

text \<open>
  An environment at clock reading \<open>t\<close>: the provider embeds \<open>a\<close>, \<open>b\<close> and \<open>d\<close>
  and fails on every other text, no store command fails, native vector search is
  unavailable, and the client returns the stored strings as they are.
\<close>

definition demo_env :: "int \<Rightarrow> env" where
  "demo_env t =
     \<lparr>embed = (\<lambda>txt. if txt = ''a'' then Some [1, 0] else if txt = ''b'' then Some [1, 0]
                     else if txt = ''d'' then Some [0, 1] else None),
      fails = (\<lambda>c. False), ftsearch = None, deserialized = False, startTime = t, now = t\<rparr>"

text \<open>
  The same environment with the client as the source constructs it: replies arrive
  already parsed.
\<close>

definition default_client_env :: "int \<Rightarrow> env" where
  "default_client_env t = (demo_env t)\<lparr>deserialized := True\<rparr>"

definition no_options :: CacheOptions where
  "no_options =
     \<lparr>opt_strategy = None, opt_ttl = None, opt_enableSemantic = None,
      opt_semanticThreshold = None\<rparr>"

definition exact_options :: CacheOptions where
  "exact_options = no_options\<lparr>opt_strategy := Some ''exact''\<rparr>"

text \<open>The same environment, with every \<open>HSET\<close> failing: indexing is down.\<close>

definition index_down_env :: "int \<Rightarrow> env" where
  "index_down_env t = (demo_env t)\<lparr>fails := (\<lambda>c. case c of HSET k \<Rightarrow> True | _ \<Rightarrow> False)\<rparr>"

text \<open>The same environment, with the embedding provider failing on every text.\<close>

definition provider_down_env :: "int \<Rightarrow> env" where
  "provider_down_env t = (demo_env t)\<lparr>embed := (\<lambda>txt. None)\<rparr>"

text \<open>A short run: one stored entry, then a hit and a miss.\<close>

definition demo_ops :: "nat operation list" where
  "demo_ops =
     [OpSet (demo_env 0) ''a'' 7 no_options,
      OpGet (demo_env 1) ''a'' no_options,
      OpGet (demo_env 2) ''a'' exact_options]"

subsection \<open>Cosine similarity and the manual scan, as the specification words them\<close>


definition magnitude :: "real list \<Rightarrow> real" where
  "magnitude a = sqrt (\<Sum>x \<leftarrow> a. x * x)"






text \<open>
  A run that leaves an index entry without its record: \<open>a\<close> is stored and indexed,
  then the store drops the record on its own.
\<close>

definition orphan_state :: "nat state" where
  "orphan_state =
     run demo_cfg [OpSet (demo_env 0) ''a'' 7 no_options,
                   OpStoreExpire ''scira:cache:sem:a''] (new_manager [] 0)"



text \<open>
  The number of \<open>GET\<close> commands sent so far for the store key \<open>h\<close>, and the
  relation "no read was taken back" between an earlier and a later state.
\<close>

definition reads :: "string \<Rightarrow> 'v state \<Rightarrow> nat" where
  "reads h s = count_list (cmds s) (GET h)"

definition reads_kept :: "'v state \<Rightarrow> 'v state \<Rightarrow> bool" where
  "reads_kept s s' \<longleftrightarrow> (\<forall>h. reads h s \<le> reads h s')"

text \<open>
  A \<open>getBatch\<close> over the keys \<open>b\<close> and \<open>a\<close> in flight on a fresh manager: the
  \<open>get\<close> of its first key (the keys are sorted) has completed, the second has not.
\<close>

definition in_flight_state :: "nat state" where
  "in_flight_state =
     snd (batch_gets demo_cfg (default_client_env 1) exact_options (take 1 (sort [''b'', ''a'']))
            (Map.empty, None) (new_manager [] 0))"


section \<open>Properties\<close>

subsection \<open>The store\<close>

lemma map_of_filter_notin:
  "map_of (filter (\<lambda>kv. fst kv \<notin> set ks) al) k = (if k \<in> set ks then None else map_of al k)"
  by (induction al) auto

lemma map_of_filter_neq:
  "map_of (filter (\<lambda>kv. fst kv \<noteq> k') al) k = (if k = k' then None else map_of al k)"
  by (induction al) auto

lemma issue_fields [simp]:
  "db (issue c s) = db s" "stats (issue c s) = stats s"
  "batchRequests (issue c s) = batchRequests s" "emitted (issue c s) = emitted s"
  "cmds (issue c s) = cmds s @ [c]"
  by (simp_all add: issue_def)

lemma emitEvent_fields [simp]:
  "db (emitEvent ty k s) = db s" "stats (emitEvent ty k s) = stats s"
  "batchRequests (emitEvent ty k s) = batchRequests s"
  "emitted (emitEvent ty k s) = emitted s @ [(ty, k)]"
  "cmds (emitEvent ty k s) = cmds s"
  by (simp_all add: emitEvent_def)

lemma same_manager_refl [simp]: "same_manager s s"
  by (simp add: same_manager_def)

lemma same_manager_trans: "same_manager s s1 \<Longrightarrow> same_manager s1 s2 \<Longrightarrow> same_manager s s2"
  by (simp add: same_manager_def)

lemma redis_get_state: "snd (redis_get env k s) = issue (GET k) s"
  by (simp add: redis_get_def split: option.splits redis_value.splits)

lemma redis_hgetall_state: "snd (redis_hgetall env k s) = issue (HGETALL k) s"
  by (simp add: redis_hgetall_def split: option.splits redis_value.splits)

lemma redis_smembers_state: "snd (redis_smembers env k s) = issue (SMEMBERS k) s"
  by (simp add: redis_smembers_def split: option.splits redis_value.splits)

lemma redis_get_Inr:
  "redis_get env k s = (Inr r, s') \<Longrightarrow>
     \<not> fails env (GET k) \<and> s' = issue (GET k) s \<and>
     (case r of None \<Rightarrow> map_of (db s) k = None | Some v \<Rightarrow> map_of (db s) k = Some (RString v))"
  by (auto simp: redis_get_def split: option.splits redis_value.splits if_splits)

lemma redis_get_hit:
  "\<not> fails env (GET k) \<Longrightarrow> map_of (db s) k = Some (RString v) \<Longrightarrow>
     redis_get env k s = (Inr (Some v), issue (GET k) s)"
  by (simp add: redis_get_def)

lemma redis_get_absent:
  "\<not> fails env (GET k) \<Longrightarrow> map_of (db s) k = None \<Longrightarrow>
     redis_get env k s = (Inr None, issue (GET k) s)"
  by (simp add: redis_get_def)

lemma redis_setex_Inr:
  "redis_setex env k t v s = (Inr u, s') \<Longrightarrow>
     map_of (db s') = (map_of (db s))(k \<mapsto> RString v) \<and> same_manager s s'
       \<and> cmds s' = cmds s @ [SETEX k t]"
  by (auto simp: redis_setex_def same_manager_def update_conv' split: if_splits)

lemma redis_setex_same: "redis_setex env k t v s = (r, s') \<Longrightarrow> same_manager s s'"
  by (auto simp: redis_setex_def same_manager_def split: if_splits)

lemma redis_hset_other:
  "redis_hset env k h s = (r, s') \<Longrightarrow> k' \<noteq> k \<Longrightarrow> map_of (db s') k' = map_of (db s) k'"
  by (auto simp: redis_hset_def update_conv' split: if_splits option.splits redis_value.splits)

lemma redis_hset_same: "redis_hset env k h s = (r, s') \<Longrightarrow> same_manager s s'"
  by (auto simp: redis_hset_def same_manager_def split: if_splits option.splits redis_value.splits)

lemma redis_sadd_other:
  "redis_sadd env k m s = (r, s') \<Longrightarrow> k' \<noteq> k \<Longrightarrow> map_of (db s') k' = map_of (db s) k'"
  by (auto simp: redis_sadd_def update_conv' split: if_splits option.splits redis_value.splits)

lemma redis_sadd_same: "redis_sadd env k m s = (r, s') \<Longrightarrow> same_manager s s'"
  by (auto simp: redis_sadd_def same_manager_def split: if_splits option.splits redis_value.splits)

lemma indexEntry_other:
  assumes "indexEntry env fp e s = (r, s')"
    and "k \<noteq> index_key (hash fp)" and "k \<noteq> vector_key (hash fp)" and "k \<noteq> keys_key"
  shows "map_of (db s') k = map_of (db s) k"
  using assms
  by (auto simp: indexEntry_def Let_def split: option.splits prod.splits sum.splits
      dest!: redis_hset_other [where k' = k] redis_sadd_other [where k' = k])

lemma indexEntry_same: "indexEntry env fp e s = (r, s') \<Longrightarrow> same_manager s s'"
  by (auto simp: indexEntry_def Let_def split: option.splits prod.splits sum.splits
      dest!: redis_hset_same redis_sadd_same intro: same_manager_trans)

lemma cache_key_not_index [simp]:
  "''scira:cache:'' @ x \<noteq> index_key y" "''scira:cache:'' @ x \<noteq> vector_key y"
  "''scira:cache:'' @ x \<noteq> keys_key"
  by (simp_all add: index_key_def vector_key_def keys_key_def indexName_def)

lemma hash_fp [simp]: "hash (generateFingerprint cfg env k strat) = lookup_key cfg strat k"
  by (simp add: generateFingerprint_def lookup_key_def Let_def)

lemma lookup_key_not_index [simp]:
  "lookup_key cfg strat k \<noteq> index_key y" "lookup_key cfg strat k \<noteq> vector_key y"
  "lookup_key cfg strat k \<noteq> keys_key"
  by (simp_all add: lookup_key_def index_key_def vector_key_def keys_key_def indexName_def)

lemma cache_set_Inr:
  assumes strat: "getStrategy cfg (opt_strategy options) = Inr strat"
    and acc: "accepts strat k v"
    and ok: "cache_set cfg env k v options s = (Inr u, s1)"
  shows "\<exists>sa sb.
           setEntry env (lookup_key cfg strat k)
             (Entry \<lparr>data = v, timestamp = now env,
                     ttl = js_or (opt_ttl options) (defaultTTL strat),
                     fingerprint = generateFingerprint cfg env k strat,
                     strategy = strategy_name strat\<rparr>)
             (Some (js_or (opt_ttl options) (defaultTTL strat))) s = (Inr (), sa)
           \<and> (if strategy_type strat = Semantic
                    \<and> embedding (generateFingerprint cfg env k strat) \<noteq> None
                then indexEntry env (generateFingerprint cfg env k strat)
                       \<lparr>data = v, timestamp = now env,
                        ttl = js_or (opt_ttl options) (defaultTTL strat),
                        fingerprint = generateFingerprint cfg env k strat,
                        strategy = strategy_name strat\<rparr> sa
                else (Inr (), sa)) = (Inr (), sb)
           \<and> s1 = emitEvent SetEvent k sb"
proof -
  have norej: "\<not> (case shouldCache strat of None \<Rightarrow> False | Some p \<Rightarrow> \<not> p k v)"
    using acc by (simp add: accepts_def split: option.splits)
  show ?thesis
    using ok
    unfolding cache_set_def Let_def strat sum.case if_not_P [OF norej] hash_fp
    by (auto split: prod.splits sum.splits if_splits)
qed

lemma cache_set_stored:
  assumes strat: "getStrategy cfg (opt_strategy options) = Inr strat"
    and acc: "accepts strat k v"
    and ok: "cache_set cfg env k v options s = (Inr u, s1)"
  shows "map_of (db s1) (lookup_key cfg strat k) =
           Some (RString (Entry \<lparr>data = v, timestamp = now env,
                                 ttl = js_or (opt_ttl options) (defaultTTL strat),
                                 fingerprint = generateFingerprint cfg env k strat,
                                 strategy = strategy_name strat\<rparr>))"
proof -
  let ?fp = "generateFingerprint cfg env k strat"
  let ?t = "js_or (opt_ttl options) (defaultTTL strat)"
  let ?e = "\<lparr>data = v, timestamp = now env, ttl = ?t, fingerprint = ?fp,
             strategy = strategy_name strat\<rparr>"
  from cache_set_Inr [OF assms] obtain sa sb where
    w: "setEntry env (lookup_key cfg strat k) (Entry ?e) (Some ?t) s = (Inr (), sa)" and
    i: "(if strategy_type strat = Semantic \<and> embedding ?fp \<noteq> None
         then indexEntry env ?fp ?e sa else (Inr (), sa)) = (Inr (), sb)" and
    s1: "s1 = emitEvent SetEvent k sb"
    by blast
  from w have a: "map_of (db sa) (lookup_key cfg strat k) = Some (RString (Entry ?e))"
    by (auto simp: setEntry_def dest!: redis_setex_Inr)
  have "map_of (db sb) (lookup_key cfg strat k) = map_of (db sa) (lookup_key cfg strat k)"
  proof (cases "strategy_type strat = Semantic \<and> embedding ?fp \<noteq> None")
    case True
    with i have "indexEntry env ?fp ?e sa = (Inr (), sb)" by simp
    from indexEntry_other [OF this, of "lookup_key cfg strat k"] show ?thesis by simp
  next
    case False
    with i show ?thesis by auto
  qed
  with a s1 show ?thesis by simp
qed

lemma getEntry_frame: "getEntry env k s = (r, s') \<Longrightarrow> s' = issue (GET k) s"
  using redis_get_state [of env k s]
  by (cases "redis_get env k s") (auto simp: getEntry_def split: sum.splits option.splits if_splits)

lemma getEntry_absent:
  "\<not> fails env (GET k) \<Longrightarrow> map_of (db s) k = None \<Longrightarrow>
     getEntry env k s = (Inr None, issue (GET k) s)"
  by (simp add: getEntry_def redis_get_absent)

lemma getEntry_raw:
  "\<not> deserialized env \<Longrightarrow> \<not> fails env (GET k) \<Longrightarrow> map_of (db s) k = Some (RString v) \<Longrightarrow>
     getEntry env k s = (Inr (Some v), issue (GET k) s)"
  by (simp add: getEntry_def redis_get_hit)

lemma getEntry_parsed:
  "deserialized env \<Longrightarrow> \<not> fails env (GET k) \<Longrightarrow> map_of (db s) k = Some (RString v) \<Longrightarrow>
     getEntry env k s = (Inl SYNTAX_ERROR, issue (GET k) s)"
  by (simp add: getEntry_def redis_get_hit)

text \<open>With a client that returns the stored string, a live record is served.\<close>

lemma get_exact_hit:
  assumes strat: "getStrategy cfg (opt_strategy options) = Inr strat"
    and raw: "\<not> deserialized env"
    and rd: "\<not> fails env (GET (lookup_key cfg strat k))"
    and st: "map_of (db s) (lookup_key cfg strat k) = Some (RString (Entry e))"
    and live: "now env \<le> timestamp e + ttl e * 1000"
  shows "fst (get cfg env k options s) = Inr (Data (data e))"
  using assms
  by (simp add: get_def get_lookup_def getEntry_raw get_finish_def Let_def
      isExpired_def entry_data_def)

text \<open>
  With the client as the source constructs it, a \<open>get\<close> that finds a record of any
  kind under the lookup key fails.
\<close>

lemma get_found_parsed:
  assumes strat: "getStrategy cfg (opt_strategy options) = Inr strat"
    and parsed: "deserialized env"
    and rd: "\<not> fails env (GET (lookup_key cfg strat k))"
    and st: "map_of (db s) (lookup_key cfg strat k) = Some (RString entry)"
  shows "get cfg env k options s
           = (Inl GET_ERROR, emitEvent ErrorEvent k (issue (GET (lookup_key cfg strat k)) s))"
  using assms
  by (simp add: get_def get_lookup_def getEntry_parsed Let_def)

text \<open>Unfolding rules for evaluating the model on concrete inputs.\<close>

lemmas demo_defs = demo_cfg_def no_options_def exact_options_def sem_strategy_def
  exact_strategy_def demo_env_def default_client_env_def

lemmas store_defs = redis_get_def redis_setex_def redis_del_def redis_hset_def redis_sadd_def
  redis_srem_def redis_smembers_def redis_hgetall_def redis_keys_def redis_flushall_def issue_def
  index_key_def vector_key_def keys_key_def indexName_def entry_key_def

lemmas manager_defs = cache_set_def get_def get_lookup_def get_finish_def delete_def
  getStrategy_def generateFingerprint_def normalizeKey_def trim_def toLowerCase_def isSpace_def
  js_or_def setEntry_def getEntry_def indexEntry_def removeEntry_def emitEvent_def new_manager_def
  isExpired_def entry_data_def entry_ttl_def updateStats_def resetStats_def Let_def
  findSimilarQueries_def performVectorSearch_def performManualSimilaritySearch_def
  cosineSimilarity_def parseVectorSearchResults_def run_def accepts_def lookup_key_def

subsection \<open>Round trip\<close>

text \<open>
  With a client that returns the stored strings as they are, \<open>get\<close> after \<open>set\<close>
  returns the value: after a \<open>set(k, v)\<close> that returned, a \<open>get(k)\<close> with the same
  strategy whose store read succeeds and whose clock has not passed the entry's creation
  time plus its TTL returns \<open>v\<close>.
\<close>

lemma round_trip_raw_client:
  assumes "getStrategy cfg (opt_strategy options) = Inr strat"
    and "opt_strategy options' = opt_strategy options"
    and "accepts strat k v"
    and "cache_set cfg env k v options s = (Inr (), s1)"
    and "\<not> deserialized env'"
    and "\<not> fails env' (GET (lookup_key cfg strat k))"
    and "now env' \<le> now env + js_or (opt_ttl options) (defaultTTL strat) * 1000"
  shows "fst (get cfg env' k options' s1) = Inr (Data v)"
proof -
  have "getStrategy cfg (opt_strategy options') = Inr strat"
    using assms(1,2) by simp
  moreover note cache_set_stored [OF assms(1,3,4)]
  ultimately show ?thesis
    using assms(5,6,7) get_exact_hit [of cfg options' strat env' k s1] by simp
qed

text \<open>
  Claim C1 says that \<open>get(k)\<close> after \<open>set(k, v)\<close> returns \<open>v\<close>. With the store
  client as the constructor builds it, it does not: \<open>set\<close> accepts the value, returns
  and leaves the record in the store; the \<open>get\<close> reads it, the client hands it over
  already parsed, \<open>JSON.parse\<close> in \<open>getEntry\<close> throws, and the caller gets
  \<open>GET_ERROR\<close>, one second after the \<open>set\<close> and with a TTL of 60 seconds.
\<close>

theorem round_trip_fails_with_default_client:
  "accepts sem_strategy ''a'' 7
   \<and> fst (cache_set demo_cfg (default_client_env 0) ''a'' 7 no_options (new_manager [] 0))
       = Inr ()
   \<and> map_of (db (snd (cache_set demo_cfg (default_client_env 0) ''a'' 7 no_options
                         (new_manager [] 0)))) ''scira:cache:sem:a''
       = Some (RString (Entry \<lparr>data = 7, timestamp = 0, ttl = 60,
            fingerprint = generateFingerprint demo_cfg (default_client_env 0) ''a'' sem_strategy,
            strategy = ''sem''\<rparr>))
   \<and> fst (get demo_cfg (default_client_env 1000) ''a'' no_options
            (snd (cache_set demo_cfg (default_client_env 0) ''a'' 7 no_options
                    (new_manager [] 0))))
       = Inl GET_ERROR"
  by (simp add: demo_defs store_defs manager_defs)

subsection \<open>A failed indexing leaves the entry stored\<close>

text \<open>
  Claim C10, as stated, has the entry of a \<open>set\<close> that failed in indexing remain
  retrievable by \<open>get\<close>. With the store client as the constructor builds it the
  record is in the store, but \<open>get\<close> cannot return it: the reply arrives already
  parsed and \<open>JSON.parse\<close> in \<open>getEntry\<close> throws.
\<close>

theorem failed_set_entry_not_retrievable_counterexample:
  "fst (cache_set demo_cfg ((index_down_env 0)\<lparr>deserialized := True\<rparr>) ''a'' 7 no_options
          (new_manager [] 0)) = Inl SET_ERROR
   \<and> map_of (db (snd (cache_set demo_cfg ((index_down_env 0)\<lparr>deserialized := True\<rparr>) ''a'' 7
                         no_options (new_manager [] 0)))) ''scira:cache:sem:a'' \<noteq> None
   \<and> fst (get demo_cfg (default_client_env 1000) ''a'' no_options
            (snd (cache_set demo_cfg ((index_down_env 0)\<lparr>deserialized := True\<rparr>) ''a'' 7
                    no_options (new_manager [] 0))))
       = Inl GET_ERROR"
  by (simp add: index_down_env_def demo_defs store_defs manager_defs)

text \<open>
  Claim C10, amended. \<open>set\<close> is not atomic on error for semantic strategies: when
  the store write of the entry succeeds and the semantic indexing that follows fails,
  the call raises \<open>SET_ERROR\<close>, yet the entry has been persisted and is still in the
  store when the call ends: the store write is not rolled back.
\<close>

theorem failed_indexing_keeps_entry:
  assumes strat: "getStrategy cfg (opt_strategy options) = Inr strat"
    and acc: "accepts strat k v"
    and sem: "strategy_type strat = Semantic" "embed env (normalizeKey k) \<noteq> None"
    and e: "e = \<lparr>data = v, timestamp = now env, ttl = js_or (opt_ttl options) (defaultTTL strat),
                  fingerprint = generateFingerprint cfg env k strat, strategy = strategy_name strat\<rparr>"
    and write_ok: "setEntry env (lookup_key cfg strat k) (Entry e) (Some (ttl e)) s = (Inr (), sa)"
    and index_fails: "fst (indexEntry env (generateFingerprint cfg env k strat) e sa) = Inl err"
  shows "fst (cache_set cfg env k v options s) = Inl SET_ERROR
         \<and> map_of (db (snd (cache_set cfg env k v options s))) (lookup_key cfg strat k)
             = Some (RString (Entry e))"
proof -
  obtain sb where idx: "indexEntry env (generateFingerprint cfg env k strat) e sa = (Inl err, sb)"
    using index_fails by (cases "indexEntry env (generateFingerprint cfg env k strat) e sa") auto
  have norej: "\<not> (case shouldCache strat of None \<Rightarrow> False | Some p \<Rightarrow> \<not> p k v)"
    using acc by (simp add: accepts_def split: option.splits)
  have emb: "embedding (generateFingerprint cfg env k strat) \<noteq> None"
    using sem by (simp add: generateFingerprint_def Let_def)
  have res: "cache_set cfg env k v options s = (Inl SET_ERROR, emitEvent ErrorEvent k sb)"
    unfolding cache_set_def Let_def strat sum.case if_not_P [OF norej] hash_fp
    using write_ok idx sem(1) emb by (simp add: e)
  from write_ok have "map_of (db sa) (lookup_key cfg strat k) = Some (RString (Entry e))"
    by (auto simp: setEntry_def dest!: redis_setex_Inr)
  moreover from indexEntry_other [OF idx, of "lookup_key cfg strat k"]
  have "map_of (db sb) (lookup_key cfg strat k) = map_of (db sa) (lookup_key cfg strat k)"
    by simp
  ultimately have stored: "map_of (db (emitEvent ErrorEvent k sb)) (lookup_key cfg strat k)
                             = Some (RString (Entry e))"
    by simp
  with res show ?thesis by simp
qed

theorem failed_indexing_keeps_entry_witness:
  "strategy_type sem_strategy = Semantic
   \<and> accepts sem_strategy ''a'' 7
   \<and> embed (index_down_env 0) (normalizeKey ''a'') = Some [1, 0]
   \<and> fst (setEntry (index_down_env 0) (lookup_key demo_cfg sem_strategy ''a'')
            (Entry \<lparr>data = 7, timestamp = 0, ttl = 60,
                    fingerprint = generateFingerprint demo_cfg (index_down_env 0) ''a'' sem_strategy,
                    strategy = ''sem''\<rparr>) (Some 60) (new_manager [] 0)) = Inr ()
   \<and> fst (cache_set demo_cfg (index_down_env 0) ''a'' 7 no_options (new_manager [] 0))
       = Inl SET_ERROR
   \<and> map_of (db (snd (cache_set demo_cfg (index_down_env 0) ''a'' 7 no_options
                         (new_manager [] 0)))) (lookup_key demo_cfg sem_strategy ''a'')
       = Some (RString (Entry \<lparr>data = 7, timestamp = 0, ttl = 60,
                    fingerprint = generateFingerprint demo_cfg (index_down_env 0) ''a'' sem_strategy,
                    strategy = ''sem''\<rparr>))"
proof -
  let ?env = "index_down_env 0"
  let ?fp = "generateFingerprint demo_cfg ?env ''a'' sem_strategy"
  let ?e = "\<lparr>data = 7, timestamp = 0, ttl = 60, fingerprint = ?fp, strategy = ''sem''\<rparr>"
  let ?w = "setEntry ?env (lookup_key demo_cfg sem_strategy ''a'') (Entry ?e) (Some 60)
              (new_manager [] 0)"
  have h1: "getStrategy demo_cfg (opt_strategy no_options) = Inr sem_strategy"
    by (simp add: demo_defs getStrategy_def)
  have h2: "accepts sem_strategy ''a'' 7"
    by (simp add: accepts_def sem_strategy_def)
  have h3: "strategy_type sem_strategy = Semantic"
    by (simp add: sem_strategy_def)
  have h4: "embed ?env (normalizeKey ''a'') = Some [1, 0]"
    by (simp add: index_down_env_def demo_defs manager_defs)
  then have h4': "embed ?env (normalizeKey ''a'') \<noteq> None"
    by simp
  have h5: "?e = \<lparr>data = 7, timestamp = now ?env,
                   ttl = js_or (opt_ttl no_options) (defaultTTL sem_strategy),
                   fingerprint = ?fp, strategy = strategy_name sem_strategy\<rparr>"
    by (simp add: index_down_env_def demo_defs js_or_def)
  have w: "fst ?w = Inr ()"
    by (simp add: index_down_env_def demo_defs store_defs manager_defs)
  then have h6: "setEntry ?env (lookup_key demo_cfg sem_strategy ''a'') (Entry ?e) (Some (ttl ?e))
                  (new_manager [] 0) = (Inr (), snd ?w)"
    by (simp add: prod_eq_iff)
  have h7: "fst (indexEntry ?env ?fp ?e (snd ?w)) = Inl SEMANTIC_ERROR"
    by (simp add: index_down_env_def demo_defs store_defs manager_defs)
  from failed_indexing_keeps_entry [OF h1 h2 h3 h4' h5 h6 h7] h2 h3 h4 w
  show ?thesis by simp
qed

subsection \<open>The cacheability gate\<close>

text \<open>
  Claim C7, as stated, promises that a \<open>get\<close> after a rejected \<open>set\<close> returns null.
  It does not when the key already holds an entry: the rejected \<open>set\<close> changes
  nothing, so the earlier value is still served (by a client that returns the stored
  string; with the client as the constructor builds it the \<open>get\<close> fails on the
  record, lemma \<open>rejected_set_then_get_default_client\<close>, which is not null either).
\<close>

theorem rejected_set_then_get_counterexample:
  "\<not> accepts sem_strategy ''a'' 0
   \<and> fst (get demo_cfg (demo_env 2) ''a'' no_options
            (snd (cache_set demo_cfg (demo_env 1) ''a'' 0 no_options
               (snd (cache_set demo_cfg (demo_env 0) ''a'' 7 no_options (new_manager [] 0))))))
       = Inr (Data 7)
   \<and> Data (7::nat) \<noteq> Null"
  by (simp add: demo_defs store_defs manager_defs)

lemma rejected_set_then_get_default_client:
  "\<not> accepts sem_strategy ''a'' 0
   \<and> fst (get demo_cfg (default_client_env 2) ''a'' no_options
            (snd (cache_set demo_cfg (default_client_env 1) ''a'' 0 no_options
               (snd (cache_set demo_cfg (default_client_env 0) ''a'' 7 no_options
                       (new_manager [] 0))))))
       = Inl GET_ERROR"
  by (simp add: demo_defs store_defs manager_defs)

lemma get_exact_miss:
  assumes strat: "getStrategy cfg (opt_strategy options) = Inr strat"
    and rd: "\<not> fails env (GET (lookup_key cfg strat k))"
    and absent: "map_of (db s) (lookup_key cfg strat k) = None"
    and nosem: "strategy_type strat \<noteq> Semantic \<or> opt_enableSemantic options = Some False"
  shows "fst (get cfg env k options s) = Inr Null"
  using assms
  by (auto simp: get_def get_lookup_def getEntry_absent get_finish_def Let_def)

text \<open>
  Claim C7, amended. For every key and value that the resolved strategy's cacheability
  predicate rejects, \<open>set\<close> returns without error and leaves the whole state as it
  was (no store command, no event), so a later \<open>get\<close> returns what it would have
  returned without the \<open>set\<close>; that is null when the store read succeeds, the store
  holds no record under the key's fingerprint and the lookup does not go on to semantic
  search (the strategy is not semantic, or \<open>enableSemantic\<close> is false).
\<close>

theorem rejected_set_is_noop:
  assumes strat: "getStrategy cfg (opt_strategy options) = Inr strat"
    and rej: "\<not> accepts strat k v"
  shows "cache_set cfg env k v options s = (Inr (), s)
         \<and> get cfg env' k options' (snd (cache_set cfg env k v options s))
             = get cfg env' k options' s
         \<and> (opt_strategy options' = opt_strategy options
              \<and> \<not> fails env' (GET (lookup_key cfg strat k))
              \<and> map_of (db s) (lookup_key cfg strat k) = None
              \<and> (strategy_type strat \<noteq> Semantic \<or> opt_enableSemantic options' = Some False)
            \<longrightarrow> fst (get cfg env' k options' (snd (cache_set cfg env k v options s))) = Inr Null)"
proof -
  have noop: "cache_set cfg env k v options s = (Inr (), s)"
    using strat rej by (simp add: cache_set_def accepts_def split: option.splits)
  moreover have "fst (get cfg env' k options' s) = Inr Null"
    if "opt_strategy options' = opt_strategy options"
      and "\<not> fails env' (GET (lookup_key cfg strat k))"
      and "map_of (db s) (lookup_key cfg strat k) = None"
      and "strategy_type strat \<noteq> Semantic \<or> opt_enableSemantic options' = Some False"
    using get_exact_miss [of cfg options' strat env' k s] strat that by simp
  ultimately show ?thesis by simp
qed

theorem rejected_set_is_noop_witness:
  "getStrategy demo_cfg (opt_strategy no_options) = Inr sem_strategy
   \<and> \<not> accepts sem_strategy ''a'' 0
   \<and> cache_set demo_cfg (demo_env 0) ''a'' 0 no_options (new_manager [] 0)
       = (Inr (), new_manager [] 0)
   \<and> fst (get demo_cfg (demo_env 1) ''a'' (no_options\<lparr>opt_enableSemantic := Some False\<rparr>)
            (snd (cache_set demo_cfg (demo_env 0) ''a'' 0 no_options (new_manager [] 0))))
       = Inr Null"
proof -
  let ?o = "no_options\<lparr>opt_enableSemantic := Some False\<rparr>"
  have h1: "getStrategy demo_cfg (opt_strategy no_options) = Inr sem_strategy"
    by (simp add: demo_defs getStrategy_def)
  have h2: "\<not> accepts sem_strategy ''a'' 0"
    by (simp add: accepts_def sem_strategy_def)
  have h3: "opt_strategy ?o = opt_strategy no_options
            \<and> \<not> fails (demo_env 1) (GET (lookup_key demo_cfg sem_strategy ''a''))
            \<and> map_of (db (new_manager [] 0)) (lookup_key demo_cfg sem_strategy ''a'') = None
            \<and> (strategy_type sem_strategy \<noteq> Semantic \<or> opt_enableSemantic ?o = Some False)"
    by (simp add: demo_defs new_manager_def)
  note noop = rejected_set_is_noop [OF h1 h2, of "demo_env 0" "new_manager [] 0" "demo_env 1" ?o]
  from noop have a: "cache_set demo_cfg (demo_env 0) ''a'' 0 no_options (new_manager [] 0)
                       = (Inr (), new_manager [] 0)"
    by blast
  from noop h3 have b: "fst (get demo_cfg (demo_env 1) ''a'' ?o
                          (snd (cache_set demo_cfg (demo_env 0) ''a'' 0 no_options
                             (new_manager [] 0)))) = Inr Null"
    by blast
  from h1 h2 a b show ?thesis by blast
qed

subsection \<open>Removal of an expired entry\<close>

text \<open>
  Claim C2 says that a \<open>get\<close> finding an expired entry deletes it from the store.
  \<open>get\<close> calls \<open>delete(key)\<close>, which recomputes the fingerprint under the default
  strategy. Here the entry was stored under the strategy \<open>exact\<close> while the default is
  \<open>sem\<close>: with a client that returns the stored string, the \<open>get\<close> at 31000 ms
  (TTL 30 s, created at 0) returns null, sends \<open>DEL\<close> for the key of the default
  strategy, and the expired record stays where it was.
\<close>

theorem expired_entry_not_removed:
  "let s1 = snd (cache_set demo_cfg (demo_env 0) ''a'' 7 exact_options (new_manager [] 0));
       r = get demo_cfg (demo_env 31000) ''a'' exact_options s1;
       stored = Some (RString (Entry \<lparr>data = 7, timestamp = 0, ttl = 30,
                   fingerprint = generateFingerprint demo_cfg (demo_env 0) ''a'' exact_strategy,
                   strategy = ''exact''\<rparr>))
   in map_of (db s1) ''scira:cache:exact:a'' = stored
      \<and> fst r = Inr Null
      \<and> map_of (db (snd r)) ''scira:cache:exact:a'' = stored
      \<and> cmds (snd r) = cmds s1 @ [GET ''scira:cache:exact:a'', DEL [''scira:cache:sem:a'']]"
  by (simp add: demo_defs store_defs manager_defs)

text \<open>
  In the same situation a live entry of the default strategy under the same key is the
  one that gets deleted.
\<close>

lemma expired_entry_removes_other_entry:
  "let s1 = snd (cache_set demo_cfg (demo_env 0) ''a'' 7 exact_options (new_manager [] 0));
       s2 = snd (cache_set demo_cfg (demo_env 30500) ''a'' 9 no_options s1);
       r = get demo_cfg (demo_env 31000) ''a'' exact_options s2
   in map_of (db s2) ''scira:cache:sem:a'' \<noteq> None
      \<and> fst r = Inr Null
      \<and> map_of (db (snd r)) ''scira:cache:exact:a'' \<noteq> None
      \<and> map_of (db (snd r)) ''scira:cache:sem:a'' = None"
  by (simp add: demo_defs store_defs manager_defs)

text \<open>
  With the client as the constructor builds it the same \<open>get\<close> does not reach the
  expiry test: it fails on the record it reads, returns neither null nor a value, sends
  no \<open>DEL\<close> at all, and the expired record stays as well.
\<close>

lemma expired_entry_not_removed_default_client:
  "let s1 = snd (cache_set demo_cfg (default_client_env 0) ''a'' 7 exact_options (new_manager [] 0));
       r = get demo_cfg (default_client_env 31000) ''a'' exact_options s1
   in map_of (db s1) ''scira:cache:exact:a'' \<noteq> None
      \<and> fst r = Inl GET_ERROR
      \<and> map_of (db (snd r)) ''scira:cache:exact:a'' = map_of (db s1) ''scira:cache:exact:a''
      \<and> cmds (snd r) = cmds s1 @ [GET ''scira:cache:exact:a'']"
  by (simp add: demo_defs store_defs manager_defs)

subsection \<open>A fingerprint without embedding\<close>

text \<open>
  Claim C4 says that a \<open>get\<close> whose fingerprint carries no embedding does not query
  the Similarity Matcher and never fails for that reason. Here one entry is indexed,
  the provider then fails, and a \<open>get\<close> of another key misses the exact lookup:
  the matcher is queried all the same (\<open>FT.SEARCH\<close>, then the manual scan reads the
  index), the scan fails on the absent query vector, and the caller gets \<open>GET_ERROR\<close>.
\<close>

theorem missing_embedding_queries_matcher:
  "let s1 = snd (cache_set demo_cfg (demo_env 0) ''a'' 7 no_options (new_manager [] 0));
       r = get demo_cfg (provider_down_env 1) ''c'' no_options s1
   in embedding (generateFingerprint demo_cfg (provider_down_env 1) ''c'' sem_strategy) = None
      \<and> fst r = Inl GET_ERROR
      \<and> cmds (snd r) = cmds s1 @ [GET ''scira:cache:sem:c'', FT_SEARCH, SMEMBERS keys_key,
                                   HGETALL (vector_key ''scira:cache:sem:a'')]"
  by (simp add: provider_down_env_def demo_defs store_defs manager_defs)

text \<open>
  With the client as the constructor builds it the scan fails one step earlier, on the
  stored vector it cannot parse; the matcher has been queried and the caller gets
  \<open>GET_ERROR\<close> all the same.
\<close>

lemma missing_embedding_queries_matcher_default_client:
  "let s1 = snd (cache_set demo_cfg (default_client_env 0) ''a'' 7 no_options (new_manager [] 0));
       r = get demo_cfg ((provider_down_env 1)\<lparr>deserialized := True\<rparr>) ''c'' no_options s1
   in fst r = Inl GET_ERROR
      \<and> cmds (snd r) = cmds s1 @ [GET ''scira:cache:sem:c'', FT_SEARCH, SMEMBERS keys_key,
                                   HGETALL (vector_key ''scira:cache:sem:a'')]"
  by (simp add: provider_down_env_def demo_defs store_defs manager_defs)

subsection \<open>What the operations leave unchanged\<close>

lemma same_manager_emitEvent [simp]: "same_manager s (emitEvent ty k s')  = same_manager s s'"
  by (simp add: same_manager_def)

lemma same_manager_issue [simp]: "same_manager s (issue c s') = same_manager s s'"
  by (simp add: same_manager_def)

lemma same_manager_left [simp]:
  "same_manager (issue c s) s' = same_manager s s'"
  "same_manager (emitEvent ty k s) s' = same_manager s s'"
  by (simp_all add: same_manager_def)

lemma redis_get_frame: "redis_get env k s = (r, s') \<Longrightarrow> s' = issue (GET k) s"
  using redis_get_state [of env k s] by simp

lemma redis_hgetall_frame: "redis_hgetall env k s = (r, s') \<Longrightarrow> s' = issue (HGETALL k) s"
  using redis_hgetall_state [of env k s] by simp

lemma redis_smembers_frame: "redis_smembers env k s = (r, s') \<Longrightarrow> s' = issue (SMEMBERS k) s"
  using redis_smembers_state [of env k s] by simp

lemma redis_keys_frame: "redis_keys cfg env p s = (r, s') \<Longrightarrow> s' = issue (KEYS p) s"
  by (auto simp: redis_keys_def split: if_splits)

lemma redis_del_same: "redis_del env ks s = (r, s') \<Longrightarrow> same_manager s s'"
  by (auto simp: redis_del_def same_manager_def split: if_splits)

lemma redis_srem_same: "redis_srem env k m s = (r, s') \<Longrightarrow> same_manager s s'"
  by (auto simp: redis_srem_def same_manager_def split: if_splits option.splits redis_value.splits)

lemma redis_flushall_same: "redis_flushall env s = (r, s') \<Longrightarrow> same_manager s s'"
  by (auto simp: redis_flushall_def same_manager_def split: if_splits)

lemma scan_keys_frame:
  "scan_keys env q thr ks acc s = (r, s') \<Longrightarrow> same_manager s s' \<and> db s' = db s"
proof (induction ks arbitrary: acc s)
  case Nil
  then show ?case by simp
next
  case (Cons k ks)
  show ?case
    using Cons.prems
    by (auto split: prod.splits sum.splits option.splits redis_value.splits if_splits
        dest!: redis_hgetall_frame redis_get_frame Cons.IH)
qed

lemma performManualSimilaritySearch_frame:
  "performManualSimilaritySearch env q thr s = (r, s') \<Longrightarrow> same_manager s s' \<and> db s' = db s"
  by (auto simp: performManualSimilaritySearch_def split: prod.splits sum.splits
      dest!: redis_smembers_frame scan_keys_frame)

lemma findSimilarQueries_frame:
  "findSimilarQueries env q thr s = (r, s') \<Longrightarrow> same_manager s s' \<and> db s' = db s"
  by (auto simp: findSimilarQueries_def performVectorSearch_def
      split: prod.splits sum.splits option.splits dest!: performManualSimilaritySearch_frame)

lemma removeEntry_same: "same_manager s (removeEntry env h s)"
proof -
  obtain r1 s1 where a: "redis_del env [index_key h] s = (r1, s1)"
    by (cases "redis_del env [index_key h] s")
  obtain r2 s2 where b: "redis_del env [vector_key h] s1 = (r2, s2)"
    by (cases "redis_del env [vector_key h] s1")
  obtain r3 s3 where c: "redis_srem env keys_key h s2 = (r3, s3)"
    by (cases "redis_srem env keys_key h s2")
  from redis_del_same [OF a] redis_del_same [OF b] redis_srem_same [OF c] a b c
  show ?thesis
    by (auto simp: removeEntry_def same_manager_def split: sum.splits)
qed

lemma clearIndex_same: "clearIndex env s = (r, s') \<Longrightarrow> same_manager s s'"
  by (auto simp: clearIndex_def same_manager_def split: prod.splits sum.splits if_splits
      dest!: redis_smembers_frame)

lemma delete_same: "delete cfg env k s = (r, s') \<Longrightarrow> same_manager s s'"
proof -
  assume d: "delete cfg env k s = (r, s')"
  show ?thesis
  proof (cases "getStrategy cfg None")
    case (Inl e)
    with d have "s' = emitEvent ErrorEvent k s" by (simp add: delete_def)
    then show ?thesis by simp
  next
    case (Inr strat)
    let ?h = "lookup_key cfg strat k"
    obtain r1 s1 where a: "redis_del env [?h] s = (r1, s1)"
      by (cases "redis_del env [?h] s")
    from redis_del_same [OF a] have s1: "same_manager s s1" .
    have rm: "same_manager s1 (removeEntry env ?h s1)"
      by (rule removeEntry_same)
    show ?thesis
    proof (cases r1)
      case (Inl e)
      with d Inr a have "s' = emitEvent ErrorEvent k s1" by (simp add: delete_def Let_def)
      with s1 show ?thesis by simp
    next
      case r1: (Inr n)
      show ?thesis
      proof (cases "n > 0")
        case True
        show ?thesis
        proof (cases "strategy_type strat = Semantic")
          case sem: True
          with d Inr a r1 \<open>n > 0\<close>
          have "s' = emitEvent DeleteEvent k (removeEntry env ?h s1)"
            by (simp add: delete_def Let_def)
          with s1 rm show ?thesis
            by (auto intro: same_manager_trans)
        next
          case nosem: False
          with d Inr a r1 \<open>n > 0\<close>
          have "s' = emitEvent DeleteEvent k s1"
            by (simp add: delete_def Let_def)
          with s1 show ?thesis by simp
        qed
      next
        case False
        with d Inr a r1 have "s' = s1" by (simp add: delete_def Let_def)
        with s1 show ?thesis by simp
      qed
    qed
  qed
qed

lemma cache_set_same: "cache_set cfg env k v options s = (r, s') \<Longrightarrow> same_manager s s'"
proof -
  assume c: "cache_set cfg env k v options s = (r, s')"
  show ?thesis
  proof (cases "getStrategy cfg (opt_strategy options)")
    case (Inl e)
    with c show ?thesis by (auto simp: cache_set_def)
  next
    case (Inr strat)
    let ?fp = "generateFingerprint cfg env k strat"
    let ?t = "js_or (opt_ttl options) (defaultTTL strat)"
    let ?e = "\<lparr>data = v, timestamp = now env, ttl = ?t, fingerprint = ?fp,
               strategy = strategy_name strat\<rparr>"
    obtain r1 s1 where a: "setEntry env (lookup_key cfg strat k) (Entry ?e) (Some ?t) s = (r1, s1)"
      by (cases "setEntry env (lookup_key cfg strat k) (Entry ?e) (Some ?t) s")
    then have s1: "same_manager s s1"
      by (auto simp: setEntry_def dest: redis_setex_same)
    obtain r2 s2 where b: "indexEntry env ?fp ?e s1 = (r2, s2)"
      by (cases "indexEntry env ?fp ?e s1")
    from indexEntry_same [OF b] s1 have s2: "same_manager s s2"
      by (blast intro: same_manager_trans)
    show ?thesis
      using c Inr a b s1 s2
      by (auto simp: cache_set_def Let_def split: sum.splits if_splits)
  qed
qed

subsection \<open>Invariants of operation sequences\<close>

lemma updateStats_ok: "stats_ok st \<Longrightarrow> stats_ok (updateStats ty l st)"
  by (simp add: stats_ok_def updateStats_def Let_def)

lemma resetStats_ok [simp]: "stats_ok (resetStats t)"
  by (simp add: stats_ok_def resetStats_def)

lemma get_lookup_same:
  "get_lookup cfg env k options strat s = (r, s') \<Longrightarrow> same_manager s s'"
proof -
  assume g: "get_lookup cfg env k options strat s = (r, s')"
  let ?h = "lookup_key cfg strat k"
  obtain r1 s1 where a: "getEntry env ?h s = (r1, s1)"
    by (cases "getEntry env ?h s")
  from getEntry_frame [OF a] have s1: "same_manager s s1" by simp
  let ?f = "findSimilarQueries env (embedding (generateFingerprint cfg env k strat))
              (js_or (opt_semanticThreshold options) (js_or (semanticThreshold strat) 0.85)) s1"
  obtain r2 s2 where b: "?f = (r2, s2)"
    by (cases ?f)
  from findSimilarQueries_frame [OF b] s1 have s2: "same_manager s s2"
    by (blast intro: same_manager_trans)
  have s3: "same_manager s s3" if "redis_setex env ?h t e s2 = (r3, s3)" for t e r3 s3
    using redis_setex_same [OF that] s2 by (blast intro: same_manager_trans)
  show ?thesis
    using g a b s1 s2
    by (auto simp: get_lookup_def Let_def setEntry_def
        split: sum.splits list.splits prod.splits if_splits dest: s3)
qed

lemma get_finish_inv:
  assumes "get_finish cfg env k entry s = (r, s')"
  shows "(stats_ok (stats s) \<longrightarrow> stats_ok (stats s')) \<and> batchRequests s' = batchRequests s"
proof (cases entry)
  case None
  with assms
  have "s' = emitEvent Miss k (s\<lparr>stats := updateStats Miss (now env - startTime env) (stats s)\<rparr>)"
    by (simp add: get_finish_def Let_def)
  then show ?thesis by (simp add: updateStats_ok)
next
  case (Some e)
  obtain r1 s1 where d: "delete cfg env k s = (r1, s1)"
    by (cases "delete cfg env k s")
  from delete_same [OF d] have s1: "stats s1 = stats s" "batchRequests s1 = batchRequests s"
    by (simp_all add: same_manager_def)
  show ?thesis
  proof (cases "isExpired (now env) e")
    case True
    show ?thesis
    proof (cases r1)
      case (Inl x)
      with assms Some d True have "s' = s1"
        by (simp add: get_finish_def Let_def)
      with s1 show ?thesis by simp
    next
      case (Inr x)
      with assms Some d True
      have "s' = emitEvent Miss k
                   (s1\<lparr>stats := updateStats Miss (now env - startTime env) (stats s1)\<rparr>)"
        by (simp add: get_finish_def Let_def)
      with s1 show ?thesis by (simp add: updateStats_ok)
    qed
  next
    case False
    with assms Some
    have "s' = emitEvent Hit k (s\<lparr>stats := updateStats Hit (now env - startTime env) (stats s)\<rparr>)"
      by (simp add: get_finish_def Let_def)
    then show ?thesis by (simp add: updateStats_ok)
  qed
qed

lemma get_inv_pair:
  assumes "get cfg env k options s = (r, s')"
  shows "(stats_ok (stats s) \<longrightarrow> stats_ok (stats s')) \<and> batchRequests s' = batchRequests s"
proof (cases "getStrategy cfg (opt_strategy options)")
  case (Inl e)
  with assms have "s' = s" by (simp add: get_def)
  then show ?thesis by simp
next
  case (Inr strat)
  obtain r1 s1 where a: "get_lookup cfg env k options strat s = (r1, s1)"
    by (cases "get_lookup cfg env k options strat s")
  from get_lookup_same [OF a] have s1: "stats s1 = stats s" "batchRequests s1 = batchRequests s"
    by (simp_all add: same_manager_def)
  show ?thesis
  proof (cases r1)
    case (Inl e)
    with assms Inr a have "s' = emitEvent ErrorEvent k s1" by (simp add: get_def)
    with s1 show ?thesis by simp
  next
    case r1: (Inr entry)
    obtain r2 s2 where b: "get_finish cfg env k entry s1 = (r2, s2)"
      by (cases "get_finish cfg env k entry s1")
    from get_finish_inv [OF b] s1
    have s2: "(stats_ok (stats s) \<longrightarrow> stats_ok (stats s2)) \<and> batchRequests s2 = batchRequests s"
      by simp
    show ?thesis
    proof (cases r2)
      case (Inl e)
      with assms Inr a r1 b have "s' = emitEvent ErrorEvent k s2" by (simp add: get_def)
      with s2 show ?thesis by simp
    next
      case (Inr v)
      with assms \<open>getStrategy cfg (opt_strategy options) = Inr strat\<close> a r1 b have "s' = s2"
        by (simp add: get_def)
      with s2 show ?thesis by simp
    qed
  qed
qed

lemma get_inv:
  "stats_ok (stats s) \<Longrightarrow> stats_ok (stats (snd (get cfg env k options s)))"
  using get_inv_pair [of cfg env k options s]
  by (cases "get cfg env k options s") auto

lemma get_batchRequests:
  "batchRequests (snd (get cfg env k options s)) = batchRequests s"
  using get_inv_pair [of cfg env k options s]
  by (cases "get cfg env k options s") auto

lemma batch_gets_inv:
  "batch_gets cfg env options ks acc s = (r, s') \<Longrightarrow>
     (stats_ok (stats s) \<longrightarrow> stats_ok (stats s')) \<and> batchRequests s' = batchRequests s"
proof (induction ks arbitrary: acc s)
  case Nil
  then show ?case by simp
next
  case (Cons k ks)
  obtain res err where acc: "acc = (res, err)" by (cases acc)
  obtain r1 s1 where g: "get cfg env k options s = (r1, s1)"
    by (cases "get cfg env k options s")
  from get_inv [of s cfg env k options] get_batchRequests [of cfg env k options s] g
  have s1: "stats_ok (stats s) \<longrightarrow> stats_ok (stats s1)" "batchRequests s1 = batchRequests s"
    by simp_all
  from Cons.prems acc g obtain acc' where "batch_gets cfg env options ks acc' s1 = (r, s')"
    by (auto split: sum.splits)
  from Cons.IH [OF this] s1 show ?case by simp
qed

lemma getBatch_inv:
  "getBatch cfg env ks options s = Some (r, s') \<Longrightarrow>
     (stats_ok (stats s) \<longrightarrow> stats_ok (stats s')) \<and> batchRequests s' = batchRequests s"
  by (auto simp: getBatch_def Let_def split: option.splits prod.splits if_splits
      dest!: batch_gets_inv)

lemma clear_inv:
  "clear cfg env pattern s = (r, s') \<Longrightarrow>
     (stats_ok (stats s) \<longrightarrow> stats_ok (stats s')) \<and> batchRequests s' = batchRequests s"
  by (auto simp: clear_def same_manager_def
      split: option.splits prod.splits sum.splits if_splits
      dest!: redis_keys_frame redis_del_same redis_flushall_same clearIndex_same)

lemma step_inv:
  "(stats_ok (stats s) \<longrightarrow> stats_ok (stats (step cfg op s)))
   \<and> batchRequests (step cfg op s) \<subseteq> batchRequests s"
proof (cases op)
  case (OpGet env k options)
  then show ?thesis using get_inv [of s cfg env k options] get_batchRequests [of cfg env k options s]
    by simp
next
  case (OpSet env k v options)
  then show ?thesis using cache_set_same [of cfg env k v options s]
    by (cases "cache_set cfg env k v options s") (auto simp: same_manager_def)
next
  case (OpDelete env k)
  then show ?thesis using delete_same [of cfg env k s]
    by (cases "delete cfg env k s") (auto simp: same_manager_def)
next
  case (OpGetBatch env ks options)
  then show ?thesis using getBatch_inv [of cfg env ks options s]
    by (cases "getBatch cfg env ks options s") auto
next
  case (OpClear env pattern)
  then show ?thesis using clear_inv [of cfg env pattern s]
    by (cases "clear cfg env pattern s") auto
next
  case (OpGetStats t)
  then show ?thesis by (simp add: getStats_def Let_def stats_ok_def)
next
  case OpDestroy
  then show ?thesis by (simp add: destroy_def)
next
  case (OpStoreExpire k)
  then show ?thesis by simp
qed

lemma run_inv:
  "stats_ok (stats s) \<Longrightarrow> batchRequests s = {} \<Longrightarrow>
     stats_ok (stats (run cfg ops s)) \<and> batchRequests (run cfg ops s) = {}"
proof (induction ops arbitrary: s)
  case Nil
  then show ?case by (simp add: run_def)
next
  case (Cons op ops)
  from step_inv [of s cfg op] Cons.prems
  have "stats_ok (stats (step cfg op s))" "batchRequests (step cfg op s) = {}"
    by auto
  from Cons.IH [OF this] show ?case by (simp add: run_def)
qed

lemma reachable_inv:
  "stats_ok (stats (run cfg ops (new_manager db0 t)))
   \<and> batchRequests (run cfg ops (new_manager db0 t)) = {}"
  by (rule run_inv) (simp_all add: new_manager_def)

subsection \<open>Statistics\<close>

lemma clear_all_stats:
  assumes "fst (clear cfg env None s) = Inr n"
  shows "stats (snd (clear cfg env None s)) = resetStats (now env)"
proof -
  obtain r1 s1 where a: "redis_flushall env s = (r1, s1)"
    by (cases "redis_flushall env s")
  obtain r2 s2 where b: "clearIndex env s1 = (r2, s2)"
    by (cases "clearIndex env s1")
  show ?thesis
  proof (cases r1)
    case (Inl e)
    with assms a show ?thesis by (simp add: clear_def)
  next
    case r1: (Inr u)
    show ?thesis
    proof (cases r2)
      case (Inl e)
      with assms a b r1 show ?thesis by (simp add: clear_def)
    next
      case (Inr u')
      with a b r1 show ?thesis by (simp add: clear_def)
    qed
  qed
qed

lemma hitRate_getStats:
  "hitRate (fst (getStats t s)) =
     (if totalRequests (stats s) = 0 then 0
      else real (hits (stats s)) / real (totalRequests (stats s)))"
  by (simp add: getStats_def Let_def)

text \<open>
  Claim C9. After every sequence of cache operations on a freshly constructed manager,
  \<open>hits + misses = totalRequests\<close>; the \<open>hitRate\<close> that \<open>getStats\<close> reports is
  \<open>hits / totalRequests\<close>, or 0 when there were no requests, and lies between 0 and
  1; and after a \<open>clear()\<close> without pattern that returned, the counters \<open>hits\<close>,
  \<open>misses\<close>, \<open>totalRequests\<close>, \<open>hitRate\<close>, \<open>averageLatency\<close>, \<open>storageSize\<close>
  and \<open>evictions\<close> are zero, as is the \<open>hitRate\<close> that \<open>getStats\<close> then reports.
\<close>

theorem stats_invariants:
  assumes s: "s = run cfg ops (new_manager db0 t)"
    and c: "c = stats (snd (clear cfg env None s))"
  shows "hits (stats s) + misses (stats s) = totalRequests (stats s)
         \<and> hitRate (fst (getStats t1 s))
             = (if totalRequests (stats s) = 0 then 0
                else real (hits (stats s)) / real (totalRequests (stats s)))
         \<and> 0 \<le> hitRate (fst (getStats t1 s)) \<and> hitRate (fst (getStats t1 s)) \<le> 1
         \<and> (fst (clear cfg env None s) = Inr n \<longrightarrow>
               hits c = 0 \<and> misses c = 0 \<and> totalRequests c = 0 \<and> hitRate c = 0
               \<and> averageLatency c = 0 \<and> storageSize c = 0 \<and> evictions c = 0
               \<and> hitRate (fst (getStats t2 (snd (clear cfg env None s)))) = 0)"
proof -
  from reachable_inv [of cfg ops db0 t] s
  have inv: "hits (stats s) + misses (stats s) = totalRequests (stats s)"
    by (simp add: stats_ok_def)
  then have le: "hits (stats s) \<le> totalRequests (stats s)"
    by simp
  have rate: "hitRate (fst (getStats t1 s))
                = (if totalRequests (stats s) = 0 then 0
                   else real (hits (stats s)) / real (totalRequests (stats s)))"
    by (rule hitRate_getStats)
  have lo: "0 \<le> hitRate (fst (getStats t1 s))"
    unfolding rate by simp
  have hi: "hitRate (fst (getStats t1 s)) \<le> 1"
    unfolding rate using le by (simp add: divide_le_eq)
  have zero: "hits c = 0 \<and> misses c = 0 \<and> totalRequests c = 0 \<and> hitRate c = 0
              \<and> averageLatency c = 0 \<and> storageSize c = 0 \<and> evictions c = 0
              \<and> hitRate (fst (getStats t2 (snd (clear cfg env None s)))) = 0"
    if "fst (clear cfg env None s) = Inr n"
    using clear_all_stats [OF that] c
    by (simp add: resetStats_def hitRate_getStats)
  from inv rate lo hi zero show ?thesis by blast
qed

theorem stats_invariants_witness:
  "fst (clear demo_cfg (demo_env 3) None (run demo_cfg demo_ops (new_manager [] 0))) = Inr 1
   \<and> hits (stats (run demo_cfg demo_ops (new_manager [] 0))) = 1
   \<and> misses (stats (run demo_cfg demo_ops (new_manager [] 0))) = 1
   \<and> totalRequests (stats (run demo_cfg demo_ops (new_manager [] 0))) = 2
   \<and> hitRate (fst (getStats 5 (run demo_cfg demo_ops (new_manager [] 0)))) = 1 / 2
   \<and> totalRequests (stats (snd (clear demo_cfg (demo_env 3) None
         (run demo_cfg demo_ops (new_manager [] 0))))) = 0
   \<and> hitRate (fst (getStats 6 (snd (clear demo_cfg (demo_env 3) None
         (run demo_cfg demo_ops (new_manager [] 0)))))) = 0"
proof -
  let ?s = "run demo_cfg demo_ops (new_manager [] 0)"
  have st: "stats ?s
              = \<lparr>hits = 1, misses = 1, hitRate = 0, totalRequests = 2, averageLatency = 0,
                 storageSize = 0, evictions = 0, lastUpdated = 0\<rparr>"
    by (simp add: demo_ops_def demo_defs store_defs manager_defs)
  have cl: "fst (clear demo_cfg (demo_env 3) None ?s) = Inr 1"
    by (simp add: clear_def clearIndex_def demo_ops_def demo_defs store_defs manager_defs)
  note inv = stats_invariants [OF refl refl, of demo_cfg demo_ops "[]" 0 5 "demo_env 3" 1 6]
  from inv cl
  have "totalRequests (stats (snd (clear demo_cfg (demo_env 3) None ?s))) = 0
        \<and> hitRate (fst (getStats 6 (snd (clear demo_cfg (demo_env 3) None ?s)))) = 0"
    by blast
  moreover from inv st have "hitRate (fst (getStats 5 ?s)) = 1 / 2"
    by simp
  ultimately show ?thesis using st cl by simp
qed

subsection \<open>Identical batches\<close>

lemma no_batch_in_flight:
  "generateBatchId cfg ks options \<notin> batchRequests (run cfg ops (new_manager db0 t))"
  using reachable_inv [of cfg ops db0 t] by simp

lemma getBatch_never_waits:
  "\<exists>r s'. getBatch cfg env ks options (run cfg ops (new_manager db0 t)) = Some (r, s')"
  using no_batch_in_flight [of cfg ks options ops db0 t]
  by (auto simp: getBatch_def Let_def split: prod.splits option.splits)

text \<open>Every operation only adds to the commands sent; a \<open>get\<close> reads its lookup key.\<close>

lemma reads_issue [simp]:
  "reads h (issue c s) = (if c = GET h then Suc (reads h s) else reads h s)"
  by (simp add: reads_def issue_def)

lemma reads_emitEvent [simp]: "reads h (emitEvent ty k s) = reads h s"
  by (simp add: reads_def)

lemma reads_update [simp]:
  "reads h (s\<lparr>db := d\<rparr>) = reads h s"
  "reads h (s\<lparr>stats := st\<rparr>) = reads h s"
  by (simp_all add: reads_def)

lemma reads_kept_refl [simp]: "reads_kept s s"
  by (simp add: reads_kept_def)

lemma reads_kept_trans: "reads_kept s s' \<Longrightarrow> reads_kept s' s'' \<Longrightarrow> reads_kept s s''"
  unfolding reads_kept_def by (meson le_trans)

lemma reads_kept_right [simp]:
  "reads_kept s s' \<Longrightarrow> reads_kept s (issue c s')"
  "reads_kept s (emitEvent ty k s') = reads_kept s s'"
  "reads_kept s (s'\<lparr>db := d\<rparr>) = reads_kept s s'"
  "reads_kept s (s'\<lparr>stats := st\<rparr>) = reads_kept s s'"
  by (auto simp: reads_kept_def intro: le_SucI)

lemma reads_kept_less:
  "reads h s < reads h s' \<Longrightarrow> reads_kept s' s'' \<Longrightarrow> reads h s < reads h s''"
  unfolding reads_kept_def by (meson less_le_trans)

lemma reads_kept_less':
  "reads_kept s s' \<Longrightarrow> reads h s' < reads h s'' \<Longrightarrow> reads h s < reads h s''"
  unfolding reads_kept_def by (meson le_less_trans)

lemma redis_del_reads: "redis_del env ks s = (r, s') \<Longrightarrow> reads_kept s s'"
  by (auto simp: redis_del_def split: if_splits)

lemma redis_srem_reads: "redis_srem env k m s = (r, s') \<Longrightarrow> reads_kept s s'"
  by (auto simp: redis_srem_def split: if_splits option.splits redis_value.splits)

lemma redis_setex_reads: "redis_setex env k t v s = (r, s') \<Longrightarrow> reads_kept s s'"
  by (auto simp: redis_setex_def split: if_splits)

lemma removeEntry_reads: "reads_kept s (removeEntry env h s)"
proof -
  obtain r1 s1 where a: "redis_del env [index_key h] s = (r1, s1)"
    by (cases "redis_del env [index_key h] s")
  obtain r2 s2 where b: "redis_del env [vector_key h] s1 = (r2, s2)"
    by (cases "redis_del env [vector_key h] s1")
  obtain r3 s3 where c: "redis_srem env keys_key h s2 = (r3, s3)"
    by (cases "redis_srem env keys_key h s2")
  note ab = reads_kept_trans [OF redis_del_reads [OF a] redis_del_reads [OF b]]
  note abc = reads_kept_trans [OF ab redis_srem_reads [OF c]]
  show ?thesis
    using a b c redis_del_reads [OF a] ab abc
    by (auto simp: removeEntry_def split: sum.splits)
qed

lemma delete_reads: "delete cfg env k s = (r, s') \<Longrightarrow> reads_kept s s'"
proof -
  assume d: "delete cfg env k s = (r, s')"
  show ?thesis
  proof (cases "getStrategy cfg None")
    case (Inl e)
    with d show ?thesis by (auto simp: delete_def)
  next
    case (Inr strat)
    let ?h = "hash (generateFingerprint cfg env k strat)"
    obtain r1 s1 where a: "redis_del env [?h] s = (r1, s1)"
      by (cases "redis_del env [?h] s")
    note s1 = redis_del_reads [OF a]
    note s2 = reads_kept_trans [OF s1 removeEntry_reads [of s1 env ?h]]
    show ?thesis
      using d Inr a s1 s2
      by (auto simp: delete_def Let_def split: sum.splits if_splits)
  qed
qed

lemma scan_keys_reads:
  "scan_keys env q thr ks acc s = (r, s') \<Longrightarrow> reads_kept s s'"
proof (induction ks arbitrary: acc s)
  case Nil
  then show ?case by simp
next
  case (Cons k ks)
  have step: "reads_kept s s'" if "scan_keys env q thr ks acc' s2 = (r, s')" "reads_kept s s2"
    for acc' s2
    using Cons.IH [OF that(1)] that(2) by (rule reads_kept_trans [rotated])
  show ?case
    using Cons.prems
    by (auto split: prod.splits sum.splits option.splits redis_value.splits if_splits
        dest!: redis_hgetall_frame redis_get_frame intro!: step)
qed

lemma performManualSimilaritySearch_reads:
  "performManualSimilaritySearch env q thr s = (r, s') \<Longrightarrow> reads_kept s s'"
proof -
  assume p: "performManualSimilaritySearch env q thr s = (r, s')"
  obtain r1 s1 where a: "redis_smembers env keys_key s = (r1, s1)"
    by (cases "redis_smembers env keys_key s")
  from redis_smembers_frame [OF a] have s1: "reads_kept s s1" by simp
  show ?thesis
  proof (cases r1)
    case (Inl e)
    with p a s1 show ?thesis by (simp add: performManualSimilaritySearch_def)
  next
    case (Inr ms)
    obtain r2 s2 where b: "scan_keys env q thr ms [] s1 = (r2, s2)"
      by (cases "scan_keys env q thr ms [] s1")
    note s2 = reads_kept_trans [OF s1 scan_keys_reads [OF b]]
    with p a Inr b show ?thesis
      by (cases r2) (auto simp: performManualSimilaritySearch_def)
  qed
qed

lemma findSimilarQueries_reads:
  "findSimilarQueries env q thr s = (r, s') \<Longrightarrow> reads_kept s s'"
proof (cases "ftsearch env")
  case None
  assume f: "findSimilarQueries env q thr s = (r, s')"
  with None have "performManualSimilaritySearch env q thr (issue FT_SEARCH s) = (r, s')"
    by (simp add: findSimilarQueries_def performVectorSearch_def)
  from performManualSimilaritySearch_reads [OF this] show ?thesis
    by (auto simp: reads_kept_def)
next
  case (Some reply)
  assume f: "findSimilarQueries env q thr s = (r, s')"
  with Some show ?thesis
    by (auto simp: findSimilarQueries_def performVectorSearch_def)
qed

lemma get_lookup_reads:
  assumes g: "get_lookup cfg env k options strat s = (r, s')"
  shows "reads_kept s s' \<and> reads (lookup_key cfg strat k) s < reads (lookup_key cfg strat k) s'"
proof -
  let ?h = "lookup_key cfg strat k"
  obtain r1 s1 where a: "getEntry env ?h s = (r1, s1)"
    by (cases "getEntry env ?h s")
  from getEntry_frame [OF a] have s1: "reads_kept s s1" "reads ?h s < reads ?h s1" by simp_all
  let ?f = "findSimilarQueries env (embedding (generateFingerprint cfg env k strat))
              (js_or (opt_semanticThreshold options) (js_or (semanticThreshold strat) 0.85)) s1"
  obtain r2 s2 where b: "?f = (r2, s2)"
    by (cases ?f)
  note k12 = findSimilarQueries_reads [OF b]
  have s2: "reads_kept s s2" "reads ?h s < reads ?h s2"
    using s1 k12 by (blast intro: reads_kept_trans reads_kept_less)+
  have s3: "reads_kept s s3 \<and> reads ?h s < reads ?h s3"
    if "redis_setex env ?h t e s2 = (r3, s3)" for t e r3 s3
    using redis_setex_reads [OF that] s2 by (blast intro: reads_kept_trans reads_kept_less)
  show ?thesis
    using g a b s1 s2
    by (auto simp: get_lookup_def Let_def setEntry_def
        split: sum.splits list.splits prod.splits if_splits dest: s3)
qed

lemma get_finish_reads:
  assumes "get_finish cfg env k entry s = (r, s')"
  shows "reads_kept s s'"
proof (cases entry)
  case None
  with assms show ?thesis by (auto simp: get_finish_def Let_def)
next
  case (Some e)
  obtain r1 s1 where d: "delete cfg env k s = (r1, s1)"
    by (cases "delete cfg env k s")
  note s1 = delete_reads [OF d]
  show ?thesis
    using assms Some d s1
    by (auto simp: get_finish_def Let_def split: if_splits sum.splits)
qed

lemma get_reads:
  assumes strat: "getStrategy cfg (opt_strategy options) = Inr strat"
    and g: "get cfg env k options s = (r, s')"
  shows "reads_kept s s' \<and> reads (lookup_key cfg strat k) s < reads (lookup_key cfg strat k) s'"
proof -
  let ?h = "lookup_key cfg strat k"
  obtain r1 s1 where a: "get_lookup cfg env k options strat s = (r1, s1)"
    by (cases "get_lookup cfg env k options strat s")
  note s1 = get_lookup_reads [OF a]
  show ?thesis
  proof (cases r1)
    case (Inl e)
    with g strat a s1 show ?thesis by (auto simp: get_def)
  next
    case (Inr entry)
    obtain r2 s2 where b: "get_finish cfg env k entry s1 = (r2, s2)"
      by (cases "get_finish cfg env k entry s1")
    note k12 = get_finish_reads [OF b]
    have s2: "reads_kept s s2" "reads ?h s < reads ?h s2"
      using s1 k12 by (blast intro: reads_kept_trans reads_kept_less)+
    with g strat a Inr b show ?thesis
      by (cases r2) (auto simp: get_def)
  qed
qed

lemma batch_gets_reads:
  assumes strat: "getStrategy cfg (opt_strategy options) = Inr strat"
  shows "batch_gets cfg env options ks acc s = (r, s') \<Longrightarrow>
           reads_kept s s'
           \<and> (\<forall>k \<in> set ks. reads (lookup_key cfg strat k) s < reads (lookup_key cfg strat k) s')"
proof (induction ks arbitrary: acc s)
  case Nil
  then show ?case by simp
next
  case (Cons k ks)
  obtain results err where acc: "acc = (results, err)"
    by (cases acc)
  obtain r1 s1 where g: "get cfg env k options s = (r1, s1)"
    by (cases "get cfg env k options s")
  note s1 = get_reads [OF strat g]
  obtain acc' where rest: "batch_gets cfg env options ks acc' s1 = (r, s')"
    using Cons.prems acc g by (cases r1) auto
  note ih = Cons.IH [OF rest]
  from s1 ih have "reads_kept s s'"
    by (blast intro: reads_kept_trans)
  moreover from s1 ih have "reads (lookup_key cfg strat k) s < reads (lookup_key cfg strat k) s'"
    by (blast intro: reads_kept_less)
  moreover from s1 ih
  have "\<forall>k' \<in> set ks. reads (lookup_key cfg strat k') s < reads (lookup_key cfg strat k') s'"
    by (blast intro: reads_kept_less')
  ultimately show ?case by simp
qed

lemma batch_gets_append:
  "batch_gets cfg env options (xs @ ys) acc s
     = (case batch_gets cfg env options xs acc s of
          (acc', s') \<Rightarrow> batch_gets cfg env options ys acc' s')"
proof (induction xs arbitrary: acc s)
  case Nil
  then show ?case by simp
next
  case (Cons x xs)
  obtain results err where acc: "acc = (results, err)"
    by (cases acc)
  show ?case
    by (simp add: acc Cons.IH split: prod.splits sum.splits)
qed

text \<open>
  Claim C3 says that of two concurrent identical \<open>getBatch\<close> calls the second
  awaits the batch in flight instead of reading the store again. No operation ever adds
  an id to \<open>batchRequests\<close>. Take any state a manager can reach, start a
  \<open>getBatch\<close> there and let the \<open>get\<close> calls of any prefix of its (sorted) keys
  complete: the call is in flight, it has read the store for those keys, and its id is
  not in \<open>batchRequests\<close>. An identical \<open>getBatch\<close> started in that state does
  not wait; it returns, and it has sent a \<open>GET\<close> of its own for every key, also for
  those the first call has already read.
\<close>

theorem in_flight_batch_is_not_awaited:
  assumes strat: "getStrategy cfg (opt_strategy options) = Inr strat"
    and s0: "s0 = run cfg ops (new_manager db0 t)"
    and mid: "batch_gets cfg env options (take n (sort ks)) (Map.empty, None) s0 = (acc, mid)"
  shows "getBatch cfg env ks options s0
           = Some (case batch_gets cfg env options (drop n (sort ks)) acc mid of
                     ((results, None), s1) \<Rightarrow> (Inr results, s1)
                   | ((results, Some e), s1) \<Rightarrow> (Inl e, s1))
         \<and> (\<forall>k \<in> set (take n (sort ks)).
               reads (lookup_key cfg strat k) s0 < reads (lookup_key cfg strat k) mid)
         \<and> generateBatchId cfg ks options \<notin> batchRequests mid
         \<and> (\<exists>r s'. getBatch cfg env' ks options mid = Some (r, s')
               \<and> (\<forall>k \<in> set ks.
                     reads (lookup_key cfg strat k) mid < reads (lookup_key cfg strat k) s'))"
proof -
  let ?id = "generateBatchId cfg ks options"
  from reachable_inv [of cfg ops db0 t] s0 have b0: "batchRequests s0 = {}"
    by simp
  with batch_gets_inv [OF mid] have bm: "batchRequests mid = {}"
    by simp
  have whole: "batch_gets cfg env options (sort ks) (Map.empty, None) s0
                 = batch_gets cfg env options (drop n (sort ks)) acc mid"
    using batch_gets_append [of cfg env options "take n (sort ks)" "drop n (sort ks)"
        "(Map.empty, None)" s0] mid
    by simp
  have first: "getBatch cfg env ks options s0
                 = Some (case batch_gets cfg env options (drop n (sort ks)) acc mid of
                     ((results, None), s1) \<Rightarrow> (Inr results, s1)
                   | ((results, Some e), s1) \<Rightarrow> (Inl e, s1))"
    using b0 by (simp add: getBatch_def Let_def whole split: prod.splits option.splits)
  from batch_gets_reads [OF strat mid]
  have already: "\<forall>k \<in> set (take n (sort ks)).
               reads (lookup_key cfg strat k) s0 < reads (lookup_key cfg strat k) mid"
    by simp
  obtain acc2 s2 where second: "batch_gets cfg env' options (sort ks) (Map.empty, None) mid = (acc2, s2)"
    by (cases "batch_gets cfg env' options (sort ks) (Map.empty, None) mid")
  from batch_gets_reads [OF strat second]
  have again: "\<forall>k \<in> set ks. reads (lookup_key cfg strat k) mid < reads (lookup_key cfg strat k) s2"
    by simp
  obtain results err where acc2: "acc2 = (results, err)"
    by (cases acc2)
  have "\<exists>r. getBatch cfg env' ks options mid = Some (r, s2)"
    using bm second acc2 by (cases err) (simp_all add: getBatch_def Let_def)
  with again have "\<exists>r s'. getBatch cfg env' ks options mid = Some (r, s')
               \<and> (\<forall>k \<in> set ks.
                     reads (lookup_key cfg strat k) mid < reads (lookup_key cfg strat k) s')"
    by blast
  with first already bm show ?thesis by simp
qed

theorem in_flight_batch_is_not_awaited_witness:
  "getStrategy demo_cfg (opt_strategy exact_options) = Inr exact_strategy
   \<and> batch_gets demo_cfg (default_client_env 1) exact_options (take 1 (sort [''b'', ''a'']))
         (Map.empty, None) (new_manager [] 0)
       = (([''a'' \<mapsto> Null], None), in_flight_state)
   \<and> cmds in_flight_state = [GET ''scira:cache:exact:a'']
   \<and> generateBatchId demo_cfg [''b'', ''a''] exact_options \<notin> batchRequests in_flight_state
   \<and> getBatch demo_cfg (default_client_env 2) [''b'', ''a''] exact_options in_flight_state
         \<noteq> None
   \<and> cmds (step demo_cfg (OpGetBatch (default_client_env 2) [''b'', ''a''] exact_options)
               in_flight_state)
       = [GET ''scira:cache:exact:a'', GET ''scira:cache:exact:a'', GET ''scira:cache:exact:b'']
   \<and> cmds (snd (batch_gets demo_cfg (default_client_env 3) exact_options
                     (drop 1 (sort [''b'', ''a''])) ([''a'' \<mapsto> Null], None)
                     (step demo_cfg (OpGetBatch (default_client_env 2) [''b'', ''a''] exact_options)
                        in_flight_state)))
       = [GET ''scira:cache:exact:a'', GET ''scira:cache:exact:a'', GET ''scira:cache:exact:b'',
          GET ''scira:cache:exact:b'']
   \<and> cmds (step demo_cfg (OpGetBatch (default_client_env 1) [''b'', ''a''] exact_options)
               (new_manager [] 0))
       = [GET ''scira:cache:exact:a'', GET ''scira:cache:exact:b'']"
proof -
  have h1: "getStrategy demo_cfg (opt_strategy exact_options) = Inr exact_strategy"
    by (simp add: demo_defs getStrategy_def)
  have h2: "new_manager [] 0 = run demo_cfg [] (new_manager [] 0 :: nat state)"
    by (simp add: run_def)
  have h3: "batch_gets demo_cfg (default_client_env 1) exact_options (take 1 (sort [''b'', ''a'']))
              (Map.empty, None) (new_manager [] 0)
            = (([''a'' \<mapsto> Null], None), in_flight_state)"
    by (simp add: in_flight_state_def demo_defs store_defs manager_defs)
  note spec = in_flight_batch_is_not_awaited [OF h1 h2 h3, where env' = "default_client_env 2"]
  from spec have a: "generateBatchId demo_cfg [''b'', ''a''] exact_options
                      \<notin> batchRequests in_flight_state"
    by blast
  from spec have b: "getBatch demo_cfg (default_client_env 2) [''b'', ''a''] exact_options
                      in_flight_state \<noteq> None"
    by auto
  have c: "cmds in_flight_state = [GET ''scira:cache:exact:a'']"
    by (simp add: in_flight_state_def demo_defs store_defs manager_defs)
  have d: "cmds (step demo_cfg (OpGetBatch (default_client_env 2) [''b'', ''a''] exact_options)
               in_flight_state)
       = [GET ''scira:cache:exact:a'', GET ''scira:cache:exact:a'', GET ''scira:cache:exact:b'']"
    by (simp add: in_flight_state_def getBatch_def generateBatchId_def demo_defs store_defs
        manager_defs)
  have e: "cmds (snd (batch_gets demo_cfg (default_client_env 3) exact_options
                     (drop 1 (sort [''b'', ''a''])) ([''a'' \<mapsto> Null], None)
                     (step demo_cfg (OpGetBatch (default_client_env 2) [''b'', ''a''] exact_options)
                        in_flight_state)))
       = [GET ''scira:cache:exact:a'', GET ''scira:cache:exact:a'', GET ''scira:cache:exact:b'',
          GET ''scira:cache:exact:b'']"
    by (simp add: in_flight_state_def getBatch_def generateBatchId_def demo_defs store_defs
        manager_defs)
  have f: "cmds (step demo_cfg (OpGetBatch (default_client_env 1) [''b'', ''a''] exact_options)
               (new_manager [] 0))
       = [GET ''scira:cache:exact:a'', GET ''scira:cache:exact:b'']"
    by (simp add: getBatch_def generateBatchId_def demo_defs store_defs manager_defs)
  from h1 h3 a b c d e f show ?thesis by blast
qed

subsection \<open>The manual scan\<close>














subsection \<open>The stores of the concrete runs\<close>


lemma orphan_state_db:
  "db orphan_state =
     [(''scira_cache_embeddings:scira:cache:sem:a'',
       RHash \<lparr>idx_hash = ''scira:cache:sem:a'', idx_embedding = [1, 0],
              idx_originalQuery = ''a'', idx_timestamp = 0, idx_ttl = 60,
              idx_strategy = ''sem''\<rparr>),
      (''scira_cache_embeddings:vectors:scira:cache:sem:a'',
       RVector [1, 0]
         \<lparr>idx_hash = ''scira:cache:sem:a'', idx_embedding = [1, 0],
          idx_originalQuery = ''a'', idx_timestamp = 0, idx_ttl = 60,
          idx_strategy = ''sem''\<rparr>),
      (''scira_cache_embeddings:keys'', RSet [''scira:cache:sem:a''])]"
  by (simp add: orphan_state_def demo_defs store_defs manager_defs)


subsection \<open>Delete\<close>

lemma map_of_filter_key:
  "map_of (filter (\<lambda>kv. Q (fst kv)) al) k = (if Q k then map_of al k else None)"
  by (induction al) auto

lemma filter_absent_key:
  "map_of al k = None \<Longrightarrow> filter (\<lambda>kv. fst kv \<noteq> k) al = al"
  by (induction al) (auto split: if_splits)

lemma redis_del_ok:
  "\<not> fails env (DEL ks) \<Longrightarrow>
     redis_del env ks s =
       (Inr (length (filter (\<lambda>k. map_of (db s) k \<noteq> None) (remdups ks))),
        (issue (DEL ks) s)\<lparr>db := filter (\<lambda>kv. fst kv \<notin> set ks) (db s)\<rparr>)"
  by (simp add: redis_del_def)

lemma index_keys_distinct [simp]:
  "index_key h \<noteq> vector_key h" "vector_key h \<noteq> index_key h"
  "vector_key h \<noteq> keys_key" "keys_key \<noteq> vector_key h"
proof -
  have "h \<noteq> ''vectors:'' @ h"
    using arg_cong [of h "''vectors:'' @ h" length] by auto
  then show "index_key h \<noteq> vector_key h" "vector_key h \<noteq> index_key h"
    by (auto simp: index_key_def vector_key_def)
  show "vector_key h \<noteq> keys_key" "keys_key \<noteq> vector_key h"
    by (auto simp: vector_key_def keys_key_def)
qed

lemma index_key_lookup_not_keys [simp]:
  "index_key (lookup_key cfg strat k) \<noteq> keys_key"
  "keys_key \<noteq> index_key (lookup_key cfg strat k)"
  by (auto simp: index_key_def keys_key_def lookup_key_def)

lemma redis_srem_members:
  assumes "\<not> fails env (SREM k m)"
  shows "(\<forall>ms. map_of (db (snd (redis_srem env k m s))) k = Some (RSet ms) \<longrightarrow> m \<notin> set ms)
         \<and> (\<forall>k'. k' \<noteq> k \<longrightarrow> map_of (db (snd (redis_srem env k m s))) k' = map_of (db s) k')"
  using assms
  by (auto simp: redis_srem_def update_conv' map_of_filter_neq
      split: option.splits redis_value.splits)

lemma redis_del_Inr:
  "redis_del env ks s = (Inr n, s') \<Longrightarrow>
     map_of (db s') k' = (if k' \<in> set ks then None else map_of (db s) k')"
  by (auto simp: redis_del_def map_of_filter_notin split: if_splits)

lemma redis_del_succeeds:
  "\<not> fails env (DEL ks) \<Longrightarrow> \<exists>n s'. redis_del env ks s = (Inr n, s')"
  by (simp add: redis_del_def)

lemma removeEntry_index_gone:
  assumes a: "\<not> fails env (DEL [index_key h])" and b: "\<not> fails env (DEL [vector_key h])"
    and c: "\<not> fails env (SREM keys_key h)" and d: "index_key h \<noteq> keys_key"
  shows "map_of (db (removeEntry env h s)) (index_key h) = None
         \<and> map_of (db (removeEntry env h s)) (vector_key h) = None
         \<and> (\<forall>ms. map_of (db (removeEntry env h s)) keys_key = Some (RSet ms) \<longrightarrow> h \<notin> set ms)"
proof -
  from redis_del_succeeds [OF a] obtain n1 s1 where
    d1: "redis_del env [index_key h] s = (Inr n1, s1)" by blast
  from redis_del_succeeds [OF b] obtain n2 s2 where
    d2: "redis_del env [vector_key h] s1 = (Inr n2, s2)" by blast
  have eq: "removeEntry env h s = snd (redis_srem env keys_key h s2)"
    by (simp add: removeEntry_def d1 d2)
  from redis_del_Inr [OF d1, of "index_key h"] redis_del_Inr [OF d2, of "index_key h"]
  have i: "map_of (db s2) (index_key h) = None" by simp
  from redis_del_Inr [OF d2, of "vector_key h"]
  have v: "map_of (db s2) (vector_key h) = None" by simp
  note m = redis_srem_members [OF c, of s2]
  from m d i have "map_of (db (snd (redis_srem env keys_key h s2))) (index_key h) = None"
    by simp
  moreover from m v have "map_of (db (snd (redis_srem env keys_key h s2))) (vector_key h) = None"
    by simp
  moreover from m
  have "\<forall>ms. map_of (db (snd (redis_srem env keys_key h s2))) keys_key = Some (RSet ms)
              \<longrightarrow> h \<notin> set ms"
    by blast
  ultimately show ?thesis unfolding eq by blast
qed

lemma redis_del_other:
  "redis_del env ks s = (r, s') \<Longrightarrow> k' \<notin> set ks \<Longrightarrow> map_of (db s') k' = map_of (db s) k'"
  by (auto simp: redis_del_def map_of_filter_notin split: if_splits)

lemma redis_srem_other:
  "redis_srem env k m s = (r, s') \<Longrightarrow> k' \<noteq> k \<Longrightarrow> map_of (db s') k' = map_of (db s) k'"
  by (auto simp: redis_srem_def update_conv' map_of_filter_neq
      split: if_splits option.splits redis_value.splits)

lemma removeEntry_other:
  assumes "k' \<noteq> index_key h" "k' \<noteq> vector_key h" "k' \<noteq> keys_key"
  shows "map_of (db (removeEntry env h s)) k' = map_of (db s) k'"
proof -
  obtain r1 s1 where a: "redis_del env [index_key h] s = (r1, s1)"
    by (cases "redis_del env [index_key h] s")
  obtain r2 s2 where b: "redis_del env [vector_key h] s1 = (r2, s2)"
    by (cases "redis_del env [vector_key h] s1")
  obtain r3 s3 where c: "redis_srem env keys_key h s2 = (r3, s3)"
    by (cases "redis_srem env keys_key h s2")
  from redis_del_other [OF a, of k'] redis_del_other [OF b, of k'] redis_srem_other [OF c, of k']
    assms
  have "map_of (db s1) k' = map_of (db s) k'" "map_of (db s2) k' = map_of (db s) k'"
    "map_of (db s3) k' = map_of (db s) k'"
    by simp_all
  with a b c show ?thesis
    by (cases r1; cases r2) (simp_all add: removeEntry_def)
qed

text \<open>
  Claim C8, as stated, has \<open>delete\<close> remove the semantic index entry whenever the
  strategy is semantic. The index is only touched after a record was removed: here the
  store has already dropped the record, \<open>delete\<close> returns false and the index entry
  (both hashes and the member of the master set) stays.
\<close>

theorem delete_leaves_index_counterexample:
  "strategy_type sem_strategy = Semantic
   \<and> fst (delete demo_cfg (demo_env 1) ''a'' orphan_state) = Inr False
   \<and> map_of (db (snd (delete demo_cfg (demo_env 1) ''a'' orphan_state)))
         (index_key ''scira:cache:sem:a'') \<noteq> None
   \<and> map_of (db (snd (delete demo_cfg (demo_env 1) ''a'' orphan_state)))
         (vector_key ''scira:cache:sem:a'') \<noteq> None
   \<and> map_of (db (snd (delete demo_cfg (demo_env 1) ''a'' orphan_state))) keys_key
       = Some (RSet [''scira:cache:sem:a''])"
  by (simp add: orphan_state_db demo_defs store_defs manager_defs)

text \<open>
  Claim C8, amended. \<open>delete(key)\<close> takes no options: it recomputes the fingerprint
  for the configured default strategy. When the store's \<open>DEL\<close> succeeds it returns
  true exactly when a record was held under that fingerprint, and none is held
  afterwards; when no record was held the store's contents are unchanged; when a record
  was removed and the default strategy is semantic, the entry's two index hashes and its
  membership in the master set are removed, provided the three index commands succeed
  (their failures are swallowed).
\<close>

theorem delete_spec:
  assumes strat: "getStrategy cfg None = Inr strat"
    and h: "h = lookup_key cfg strat k"
    and ok: "\<not> fails env (DEL [h])"
    and s': "s' = snd (delete cfg env k s)"
  shows "fst (delete cfg env k s) = Inr (map_of (db s) h \<noteq> None)
         \<and> map_of (db s') h = None
         \<and> (map_of (db s) h = None \<longrightarrow> db s' = db s)
         \<and> (map_of (db s) h \<noteq> None \<and> strategy_type strat = Semantic
              \<and> \<not> fails env (DEL [index_key h]) \<and> \<not> fails env (DEL [vector_key h])
              \<and> \<not> fails env (SREM keys_key h)
            \<longrightarrow> map_of (db s') (index_key h) = None
                \<and> map_of (db s') (vector_key h) = None
                \<and> (\<forall>ms. map_of (db s') keys_key = Some (RSet ms) \<longrightarrow> h \<notin> set ms))"
proof (cases "map_of (db s) h")
  case None
  with strat h ok
  have "fst (delete cfg env k s) = Inr False \<and> db (snd (delete cfg env k s)) = db s"
    by (simp add: delete_def Let_def redis_del_ok filter_absent_key)
  with None s' show ?thesis by simp
next
  case (Some v)
  let ?s1 = "(issue (DEL [h]) s)\<lparr>db := filter (\<lambda>kv. fst kv \<notin> set [h]) (db s)\<rparr>"
  have gone: "map_of (db ?s1) h = None"
    by (simp add: map_of_filter_neq)
  show ?thesis
  proof (cases "strategy_type strat = Semantic")
    case False
    with Some strat h ok have "delete cfg env k s = (Inr True, emitEvent DeleteEvent k ?s1)"
      by (simp add: delete_def Let_def redis_del_ok)
    with Some s' False gone show ?thesis by simp
  next
    case True
    with Some strat h ok
    have d: "delete cfg env k s = (Inr True, emitEvent DeleteEvent k (removeEntry env h ?s1))"
      by (simp add: delete_def Let_def redis_del_ok)
    have other: "map_of (db (removeEntry env h ?s1)) h = None"
    proof -
      have "map_of (db (removeEntry env h ?s1)) h = None \<or>
            map_of (db (removeEntry env h ?s1)) h = map_of (db ?s1) h"
        using removeEntry_other [where k' = h and h = h and env = env and s = ?s1] h by simp
      with gone show ?thesis by auto
    qed
    have idx: "map_of (db s') (index_key h) = None
               \<and> map_of (db s') (vector_key h) = None
               \<and> (\<forall>ms. map_of (db s') keys_key = Some (RSet ms) \<longrightarrow> h \<notin> set ms)"
      if "\<not> fails env (DEL [index_key h])" "\<not> fails env (DEL [vector_key h])"
         "\<not> fails env (SREM keys_key h)"
      using removeEntry_index_gone [OF that, of ?s1] d s' h by simp
    from d s' Some other idx show ?thesis by simp
  qed
qed


theorem delete_spec_witness:
  "getStrategy demo_cfg None = Inr sem_strategy
   \<and> strategy_type sem_strategy = Semantic
   \<and> map_of (db (snd (cache_set demo_cfg (demo_env 0) ''a'' 7 no_options (new_manager [] 0))))
         (lookup_key demo_cfg sem_strategy ''a'') \<noteq> None
   \<and> map_of (db (snd (cache_set demo_cfg (demo_env 0) ''a'' 7 no_options (new_manager [] 0))))
         (vector_key (lookup_key demo_cfg sem_strategy ''a'')) \<noteq> None
   \<and> fst (delete demo_cfg (demo_env 1) ''a''
            (snd (cache_set demo_cfg (demo_env 0) ''a'' 7 no_options (new_manager [] 0))))
       = Inr True
   \<and> map_of (db (snd (delete demo_cfg (demo_env 1) ''a''
            (snd (cache_set demo_cfg (demo_env 0) ''a'' 7 no_options (new_manager [] 0))))))
         (lookup_key demo_cfg sem_strategy ''a'') = None
   \<and> map_of (db (snd (delete demo_cfg (demo_env 1) ''a''
            (snd (cache_set demo_cfg (demo_env 0) ''a'' 7 no_options (new_manager [] 0))))))
         (vector_key (lookup_key demo_cfg sem_strategy ''a'')) = None"
proof -
  let ?s = "snd (cache_set demo_cfg (demo_env 0) ''a'' 7 no_options (new_manager [] 0))"
  let ?h = "lookup_key demo_cfg sem_strategy ''a''"
  have h1: "getStrategy demo_cfg None = Inr sem_strategy"
    by (simp add: demo_defs getStrategy_def)
  have h2: "strategy_type sem_strategy = Semantic"
    by (simp add: sem_strategy_def)
  have h3: "map_of (db ?s) ?h \<noteq> None"
    by (simp add: demo_defs store_defs manager_defs)
  have h4: "map_of (db ?s) (vector_key ?h) \<noteq> None"
    by (simp add: demo_defs store_defs manager_defs)
  have h5: "\<not> fails (demo_env 1) c" for c
    by (simp add: demo_env_def)
  note spec = delete_spec [OF h1 refl h5 refl, of "''a''" ?s]
  from spec h3 have a: "fst (delete demo_cfg (demo_env 1) ''a'' ?s) = Inr True"
    by simp
  from spec have b: "map_of (db (snd (delete demo_cfg (demo_env 1) ''a'' ?s))) ?h = None"
    by blast
  from spec h2 h3 h5
  have c: "map_of (db (snd (delete demo_cfg (demo_env 1) ''a'' ?s))) (vector_key ?h) = None"
    by blast
  from h1 h2 h3 h4 a b c show ?thesis by blast
qed

subsection \<open>What the manual scan returns\<close>




subsection \<open>The semantic hit\<close>











end
